theory Spec2Isabelle
  imports Main "HOL-Library.AList"
begin

section \<open>JavaScript values\<close>

text \<open>
  The helpers of \<^verbatim>\<open>src/sagas/helpers.js\<close> work on plain data: redux actions, the redux
  state, feature-toggle maps and network settings. A value is a primitive, a plain object
  or an array. Objects and arrays carry the address they live at, since \<^verbatim>\<open>===\<close> compares
  them by identity; an object's own enumerable properties are an association list in
  insertion order (\<open>map_of\<close> reads it, so the first entry of a key is the one that counts).
  Numbers are integers plus \<open>NaN\<close>: only their equality is ever used. A function is a
  value too (\<open>Fun\<close>, with its address and the properties it has of its own, such as
  \<^verbatim>\<open>name\<close> and \<^verbatim>\<open>length\<close>): the members every value inherits from the built-in prototypes
  are functions.
\<close>

datatype jsval =
    Undefined
  | Null
  | Bool bool
  | Num int
  | NaN
  | Str string
  | Obj nat "(string \<times> jsval) list"
  | Arr nat "jsval list"
  | Fun nat "(string \<times> jsval) list"

datatype js_error = TypeError

text \<open>\<^verbatim>\<open>x == null\<close>: true of \<^verbatim>\<open>null\<close> and \<^verbatim>\<open>undefined\<close> only.\<close>

definition nullish :: "jsval \<Rightarrow> bool" where
  "nullish v = (v = Null \<or> v = Undefined)"

text \<open>\<^verbatim>\<open>ToBoolean\<close>, behind \<^verbatim>\<open>!x\<close> and \<^verbatim>\<open>x || y\<close>.\<close>

fun truthy :: "jsval \<Rightarrow> bool" where
  "truthy Undefined = False"
| "truthy Null = False"
| "truthy (Bool b) = b"
| "truthy (Num n) = (n \<noteq> 0)"
| "truthy NaN = False"
| "truthy (Str s) = (s \<noteq> [])"
| "truthy (Obj r ps) = True"
| "truthy (Arr r xs) = True"
| "truthy (Fun r ps) = True"

text \<open>\<^verbatim>\<open>a === b\<close>: objects and arrays by address, \<^verbatim>\<open>NaN\<close> equal to nothing.\<close>

fun strict_eq :: "jsval \<Rightarrow> jsval \<Rightarrow> bool" where
  "strict_eq Undefined b = (b = Undefined)"
| "strict_eq Null b = (b = Null)"
| "strict_eq (Bool x) b = (b = Bool x)"
| "strict_eq (Num n) b = (b = Num n)"
| "strict_eq NaN b = False"
| "strict_eq (Str s) b = (b = Str s)"
| "strict_eq (Obj r ps) b = (case b of Obj r' ps' \<Rightarrow> r = r' | _ \<Rightarrow> False)"
| "strict_eq (Arr r xs) b = (case b of Arr r' xs' \<Rightarrow> r = r' | _ \<Rightarrow> False)"
| "strict_eq (Fun r ps) b = (case b of Fun r' ps' \<Rightarrow> r = r' | _ \<Rightarrow> False)"

text \<open>
  An array index as a property key is the canonical decimal string of a natural number:
  digits only, no leading zero.
\<close>

definition is_digit :: "char \<Rightarrow> bool" where
  "is_digit c = (c \<in> set ''0123456789'')"

definition array_index :: "string \<Rightarrow> nat option" where
  "array_index k =
     (if k \<noteq> [] \<and> list_all is_digit k \<and> (hd k \<noteq> CHR ''0'' \<or> length k = 1)
      then Some (foldl (\<lambda>n c. 10 * n + (of_char c - 48)) 0 k)
      else None)"

text \<open>
  The own properties of a value: the entries of an object, the elements and \<^verbatim>\<open>length\<close> of
  an array, the characters and \<^verbatim>\<open>length\<close> of a string, the properties listed with a
  function. \<open>None\<close> is "no such property".
\<close>

fun own_prop :: "jsval \<Rightarrow> string \<Rightarrow> jsval option" where
  "own_prop (Obj r ps) k = map_of ps k"
| "own_prop (Arr r xs) k =
     (case array_index k of
        Some i \<Rightarrow> (if i < length xs then Some (xs ! i) else None)
      | None \<Rightarrow> (if k = ''length'' then Some (Num (int (length xs))) else None))"
| "own_prop (Str s) k =
     (case array_index k of
        Some i \<Rightarrow> (if i < length s then Some (Str [s ! i]) else None)
      | None \<Rightarrow> (if k = ''length'' then Some (Num (int (length s))) else None))"
| "own_prop (Fun r ps) k = map_of ps k"
| "own_prop v k = None"

text \<open>
  A property that a value does not have itself is looked up along its prototype chain.
  The values here are plain data, so the chain of a value is that of its kind:
  \<^verbatim>\<open>Object.prototype\<close> for an object, \<^verbatim>\<open>Array.prototype\<close> and then \<^verbatim>\<open>Object.prototype\<close> for an
  array, and so on. What the chains hold is the engine's: \<open>protos kind\<close>, a parameter,
  gives the inherited member of that name, if any. \<open>lookup\<close> is the read of a property,
  own first and inherited next (\<open>None\<close>: the value has no such property, which is also
  what \<^verbatim>\<open>key in Object(value)\<close> asks); \<open>member_of\<close> is \<^verbatim>\<open>value[key]\<close> on a value that is not
  nullish, with \<^verbatim>\<open>undefined\<close> for a property that is not there.
\<close>

datatype kind = KObject | KArray | KString | KNumber | KBoolean | KFunction

fun kind_of :: "jsval \<Rightarrow> kind option" where
  "kind_of Undefined = None"
| "kind_of Null = None"
| "kind_of (Bool b) = Some KBoolean"
| "kind_of (Num n) = Some KNumber"
| "kind_of NaN = Some KNumber"
| "kind_of (Str s) = Some KString"
| "kind_of (Obj r ps) = Some KObject"
| "kind_of (Arr r xs) = Some KArray"
| "kind_of (Fun r ps) = Some KFunction"

definition lookup ::
  "(kind \<Rightarrow> string \<Rightarrow> jsval option) \<Rightarrow> jsval \<Rightarrow> string \<Rightarrow> jsval option" where
  "lookup protos v k =
     (case own_prop v k of
        Some x \<Rightarrow> Some x
      | None \<Rightarrow> (case kind_of v of None \<Rightarrow> None | Some kd \<Rightarrow> protos kd k))"

definition member_of ::
  "(kind \<Rightarrow> string \<Rightarrow> jsval option) \<Rightarrow> jsval \<Rightarrow> string \<Rightarrow> jsval" where
  "member_of protos v k = (case lookup protos v k of Some x \<Rightarrow> x | None \<Rightarrow> Undefined)"

text \<open>
  The members of \<^verbatim>\<open>Object.prototype\<close> that the language defines, each a function at an
  address of its own but \<^verbatim>\<open>__proto__\<close>, which reads as the prototype object itself. Every
  kind of value inherits them; \<open>standard_protos\<close> holds just these for every kind.
\<close>

definition builtin :: "nat \<Rightarrow> string \<Rightarrow> int \<Rightarrow> jsval" where
  "builtin r nm arity = Fun r [(''length'', Num arity), (''name'', Str nm)]"

definition object_prototype :: "(string \<times> jsval) list" where
  "object_prototype =
     [(''constructor'', builtin 1 ''Object'' 1),
      (''hasOwnProperty'', builtin 2 ''hasOwnProperty'' 1),
      (''isPrototypeOf'', builtin 3 ''isPrototypeOf'' 1),
      (''propertyIsEnumerable'', builtin 4 ''propertyIsEnumerable'' 1),
      (''toLocaleString'', builtin 5 ''toLocaleString'' 0),
      (''toString'', builtin 6 ''toString'' 0),
      (''valueOf'', builtin 7 ''valueOf'' 0),
      (''__defineGetter__'', builtin 8 ''__defineGetter__'' 2),
      (''__defineSetter__'', builtin 9 ''__defineSetter__'' 2),
      (''__lookupGetter__'', builtin 10 ''__lookupGetter__'' 1),
      (''__lookupSetter__'', builtin 11 ''__lookupSetter__'' 1),
      (''__proto__'', Obj 12 [])]"

definition standard_protos :: "kind \<Rightarrow> string \<Rightarrow> jsval option" where
  "standard_protos kd = map_of object_prototype"

text \<open>\<^verbatim>\<open>object.key\<close> for a key that may be inherited: it throws on \<^verbatim>\<open>null\<close> and \<^verbatim>\<open>undefined\<close>.\<close>

definition read_property ::
  "(kind \<Rightarrow> string \<Rightarrow> jsval option) \<Rightarrow> jsval \<Rightarrow> string \<Rightarrow> js_error + jsval" where
  "read_property protos object k =
     (if nullish object then Inl TypeError else Inr (member_of protos object k))"

text \<open>
  The fixed names read in \<^verbatim>\<open>helpers.js\<close> (\<^verbatim>\<open>type\<close>, \<^verbatim>\<open>networkSettings\<close>, \<^verbatim>\<open>walletServiceUrl\<close>,
  the fields of the state) are not names of built-in members, so where no prototypes are
  at hand these reads are reads of own properties: \<open>get_prop\<close> is \<^verbatim>\<open>object[key]\<close> for them,
  on a value that is not nullish.
\<close>

definition get_prop :: "jsval \<Rightarrow> string \<Rightarrow> jsval" where
  "get_prop object k = (case own_prop object k of Some v \<Rightarrow> v | None \<Rightarrow> Undefined)"

text \<open>\<^verbatim>\<open>object.key\<close> on any value: reading a member of \<^verbatim>\<open>null\<close> or \<^verbatim>\<open>undefined\<close> throws.\<close>

definition read_member :: "jsval \<Rightarrow> string \<Rightarrow> js_error + jsval" where
  "read_member object k = (if nullish object then Inl TypeError else Inr (get_prop object k))"

text \<open>\<^verbatim>\<open>a ?? b\<close> with \<open>b\<close> evaluated only when \<open>a\<close> is nullish.\<close>

definition nullish_coalesce :: "jsval \<Rightarrow> (js_error + jsval) \<Rightarrow> js_error + jsval" where
  "nullish_coalesce a b = (if nullish a then b else Inr a)"

section \<open>Deep field lookup\<close>

text \<open>
  \<^verbatim>\<open>get(object, path, defaultValue)\<close> is lodash's, a library function; it is modelled here
  as lodash 4 implements it (\<^verbatim>\<open>get\<close>, \<^verbatim>\<open>baseGet\<close>, \<^verbatim>\<open>castPath\<close>, \<^verbatim>\<open>isKey\<close>, \<^verbatim>\<open>stringToPath\<close> and
  their three regular expressions), for a path given as a string. A key that is a
  property of the object, own or inherited, is read directly, even when it has dots or
  brackets; otherwise it is parsed into segments and followed one property at a time; the
  walk stops with \<^verbatim>\<open>undefined\<close> at the first \<^verbatim>\<open>null\<close> or \<^verbatim>\<open>undefined\<close> on the way, and an
  \<^verbatim>\<open>undefined\<close> result is replaced by the default. Strings are lists of 8-bit characters.
\<close>

definition word_char :: "char \<Rightarrow> bool" where
  "word_char c = (c \<in> set ''abcdefghijklmnopqrstuvwxyzABCDEFGHIJKLMNOPQRSTUVWXYZ0123456789_'')"

text \<open>\<^verbatim>\<open>reIsPlainProp = /^\w*$/\<close>\<close>

definition reIsPlainProp :: "string \<Rightarrow> bool" where
  "reIsPlainProp v = list_all word_char v"

text \<open>
  The body of a quoted segment, after the opening quote \<open>q\<close>:
  \<^verbatim>\<open>((?:(?!\2)[^\\]|\\.)*?)\2\<close>. A backslash takes the next character with it (any but a
  line terminator); the body ends at the first quote that is not escaped. The result is
  the body and what follows the closing quote.
\<close>

definition path_special :: "char \<Rightarrow> bool" where
  "path_special c = (c = CHR ''.'' \<or> c = CHR ''['' \<or> c = CHR '']'')"

definition line_terminator :: "char \<Rightarrow> bool" where
  "line_terminator c = (c = CHR 0x0A \<or> c = CHR 0x0D)"

fun quoted_body :: "char \<Rightarrow> string \<Rightarrow> (string \<times> string) option" where
  "quoted_body q [] = None"
| "quoted_body q [c] = (if c = q then Some ([], []) else None)"
| "quoted_body q (c # d # ds) =
     (if c = q then Some ([], d # ds)
      else if c = CHR 0x5C then
        (if line_terminator d then None
         else (case quoted_body q ds of
                 None \<Rightarrow> None
               | Some (body, rest) \<Rightarrow> Some (c # d # body, rest)))
      else (case quoted_body q (d # ds) of
              None \<Rightarrow> None
            | Some (body, rest) \<Rightarrow> Some (c # body, rest)))"

text \<open>\<^verbatim>\<open>subString.replace(reEscapeChar, '$1')\<close> with \<^verbatim>\<open>reEscapeChar = /\\(\\)?/g\<close>.\<close>

fun unescape :: "string \<Rightarrow> string" where
  "unescape [] = []"
| "unescape [c] = (if c = CHR 0x5C then [] else [c])"
| "unescape (c # d # ds) =
     (if c = CHR 0x5C then (if d = CHR 0x5C then d # unescape ds else unescape (d # ds))
      else c # unescape (d # ds))"

text \<open>
  A bracket segment, after the opening bracket: a number \<^verbatim>\<open>-?\d+(?:\.\d+)?\<close> or a quoted
  string, and then the closing bracket. The result is the segment (the number as written,
  the quoted string unescaped) and what follows the closing bracket.
\<close>

definition number_body :: "string \<Rightarrow> (string \<times> string) option" where
  "number_body a =
     (if takeWhile is_digit a = [] then None
      else (case dropWhile is_digit a of
              [] \<Rightarrow> None
            | c # r \<Rightarrow>
                if c = CHR '']'' then Some (takeWhile is_digit a, r)
                else if c = CHR ''.'' \<and> takeWhile is_digit r \<noteq> [] then
                  (case dropWhile is_digit r of
                     [] \<Rightarrow> None
                   | e # r' \<Rightarrow>
                       if e = CHR '']''
                       then Some (takeWhile is_digit a @ [CHR ''.''] @ takeWhile is_digit r, r')
                       else None)
                else None))"

definition bracket_number :: "string \<Rightarrow> (string \<times> string) option" where
  "bracket_number cs =
     (case cs of
        [] \<Rightarrow> None
      | c # r \<Rightarrow>
          if c = CHR ''-''
          then (case number_body r of None \<Rightarrow> None | Some (n, rest) \<Rightarrow> Some (c # n, rest))
          else number_body cs)"

definition bracket_quoted :: "string \<Rightarrow> (string \<times> string) option" where
  "bracket_quoted cs =
     (case cs of
        [] \<Rightarrow> None
      | q # r \<Rightarrow>
          if q = CHR 0x22 \<or> q = CHR 0x27 then
            (case quoted_body q r of
               None \<Rightarrow> None
             | Some (body, rest) \<Rightarrow>
                 if rest \<noteq> [] \<and> hd rest = CHR '']'' then Some (unescape body, tl rest) else None)
          else None)"

definition bracket :: "string \<Rightarrow> (string \<times> string) option" where
  "bracket cs = (case bracket_number cs of Some x \<Rightarrow> Some x | None \<Rightarrow> bracket_quoted cs)"

text \<open>
  The empty match of \<^verbatim>\<open>rePropName\<close>: \<^verbatim>\<open>(?=(?:\.|\[\])(?:\.|\[\]|$))\<close>, a dot or an empty pair of
  brackets followed by another one or by the end.
\<close>

definition separator_follows :: "string \<Rightarrow> bool" where
  "separator_follows r = (r = [] \<or> hd r = CHR ''.'' \<or> take 2 r = ''[]'')"

definition empty_segment :: "string \<Rightarrow> bool" where
  "empty_segment s =
     ((s \<noteq> [] \<and> hd s = CHR ''.'' \<and> separator_follows (tl s))
      \<or> (take 2 s = ''[]'' \<and> separator_follows (drop 2 s)))"

lemma quoted_body_rest: "quoted_body q cs = Some (body, rest) \<Longrightarrow> length rest < length cs"
proof (induction q cs arbitrary: body rule: quoted_body.induct)
  case (1 q)
  then show ?case by simp
next
  case (2 q c)
  then show ?case by (simp split: if_splits)
next
  case (3 q c d ds)
  then show ?case
    by (fastforce split: if_splits option.splits)
qed

lemma number_body_rest:
  assumes "number_body a = Some (seg, rest)"
  shows "length rest < length a"
proof (cases "dropWhile is_digit a")
  case Nil
  show ?thesis using assms by (simp add: number_body_def Nil split: if_splits)
next
  case outer: (Cons c r)
  have lb: "length r < length a"
    using length_dropWhile_le [of is_digit a] unfolding outer by simp
  show ?thesis
  proof (cases "dropWhile is_digit r")
    case Nil
    have "rest = r"
      using assms by (simp add: number_body_def outer Nil split: if_splits)
    with lb show ?thesis by simp
  next
    case (Cons e r')
    have "rest = r \<or> rest = r'"
      using assms by (simp add: number_body_def outer Cons split: if_splits)
    moreover have "length r' < length r"
      using length_dropWhile_le [of is_digit r] unfolding Cons by simp
    ultimately show ?thesis using lb by auto
  qed
qed

lemma bracket_number_rest:
  assumes "bracket_number cs = Some (seg, rest)"
  shows "length rest < length cs"
proof (cases cs)
  case Nil
  with assms show ?thesis by (simp add: bracket_number_def)
next
  case (Cons c r)
  show ?thesis
  proof (cases "c = CHR ''-''")
    case True
    with assms Cons obtain n where "number_body r = Some (n, rest)"
      by (auto simp add: bracket_number_def split: option.splits)
    from number_body_rest [OF this] Cons show ?thesis by simp
  next
    case False
    with assms Cons have "number_body cs = Some (seg, rest)"
      by (simp add: bracket_number_def)
    from number_body_rest [OF this] show ?thesis .
  qed
qed

lemma bracket_quoted_rest: "bracket_quoted cs = Some (seg, rest) \<Longrightarrow> length rest < length cs"
proof -
  assume a: "bracket_quoted cs = Some (seg, rest)"
  then obtain q r body rest' where cs: "cs = q # r" and qb: "quoted_body q r = Some (body, rest')"
    and rest: "rest = tl rest'"
    by (auto simp add: bracket_quoted_def split: list.splits if_splits option.splits)
  from quoted_body_rest [OF qb] have "length rest' < length r" .
  with cs rest show ?thesis by (cases rest') auto
qed

lemma bracket_rest: "bracket cs = Some (seg, rest) \<Longrightarrow> length rest < length cs"
  by (auto simp add: bracket_def split: option.splits
      dest: bracket_number_rest bracket_quoted_rest)

text \<open>
  The matches of \<^verbatim>\<open>rePropName\<close> from a position on, each pushed as a segment: a run of
  characters other than dot and brackets, or a bracket segment, or the empty match (after
  which the search moves on by one character); a character at which nothing matches is
  skipped.
\<close>

function scan :: "string \<Rightarrow> string list" where
  "scan [] = []"
| "scan (c # cs) =
     (if \<not> path_special c
      then (c # takeWhile (\<lambda>x. \<not> path_special x) cs)
             # scan (dropWhile (\<lambda>x. \<not> path_special x) cs)
      else (case (if c = CHR ''['' then bracket cs else None) of
              Some (seg, rest) \<Rightarrow> seg # scan rest
            | None \<Rightarrow> (if empty_segment (c # cs) then [] # scan cs else scan cs)))"
  by pat_completeness auto
termination
proof (relation "measure length")
  show "wf (measure length)" by simp
next
  fix c cs
  show "(dropWhile (\<lambda>x. \<not> path_special x) cs, c # cs) \<in> measure length"
    using length_dropWhile_le [of "\<lambda>x. \<not> path_special x" cs] by simp
next
  fix c cs x2 x y
  assume "(if c = CHR ''['' then bracket cs else None) = Some x2" and "(x, y) = x2"
  then have "bracket cs = Some (x, y)" by (simp split: if_splits)
  from bracket_rest [OF this] show "(y, c # cs) \<in> measure length" by simp
qed simp_all

declare scan.simps [simp del]

definition stringToPath :: "string \<Rightarrow> string list" where
  "stringToPath s = (if s \<noteq> [] \<and> hd s = CHR ''.'' then [[]] else []) @ scan s"

text \<open>
  \<^verbatim>\<open>reIsDeepProp = /\.|\[(?:[^[\]]*|(["'])(?:(?!\1)[^\\]|\\.)*?\1)\]/\<close>: somewhere in the
  key there is a dot, or an opening bracket followed by characters other than brackets
  and a closing bracket, or by a quoted string and a closing bracket.
\<close>

definition deep_simple :: "string \<Rightarrow> bool" where
  "deep_simple cs =
     (case dropWhile (\<lambda>x. x \<noteq> CHR ''['' \<and> x \<noteq> CHR '']'') cs of
        [] \<Rightarrow> False
      | c # r \<Rightarrow> c = CHR '']'')"

definition deep_quoted :: "string \<Rightarrow> bool" where
  "deep_quoted cs =
     (case cs of
        [] \<Rightarrow> False
      | q # r \<Rightarrow>
          (q = CHR 0x22 \<or> q = CHR 0x27)
          \<and> (case quoted_body q r of
                None \<Rightarrow> False
              | Some (body, rest) \<Rightarrow> rest \<noteq> [] \<and> hd rest = CHR '']''))"

fun reIsDeepProp :: "string \<Rightarrow> bool" where
  "reIsDeepProp [] = False"
| "reIsDeepProp (c # cs) =
     (c = CHR ''.'' \<or> (c = CHR ''['' \<and> (deep_simple cs \<or> deep_quoted cs)) \<or> reIsDeepProp cs)"

definition isKey :: "(kind \<Rightarrow> string \<Rightarrow> jsval option) \<Rightarrow> string \<Rightarrow> jsval \<Rightarrow> bool" where
  "isKey protos v object =
     (reIsPlainProp v \<or> \<not> reIsDeepProp v
      \<or> (\<not> nullish object \<and> lookup protos object v \<noteq> None))"

definition castPath :: "(kind \<Rightarrow> string \<Rightarrow> jsval option) \<Rightarrow> string \<Rightarrow> jsval \<Rightarrow> string list" where
  "castPath protos v object = (if isKey protos v object then [v] else stringToPath v)"

text \<open>
  The loop of \<^verbatim>\<open>baseGet\<close>: \<^verbatim>\<open>while (object != null && index < length)\<close>. \<open>None\<close> is
  leaving the loop before the end of the path. \<^verbatim>\<open>baseGet\<close> answers \<^verbatim>\<open>undefined\<close> then, and
  also when the path has no segment.
\<close>

fun baseGet_loop ::
  "(kind \<Rightarrow> string \<Rightarrow> jsval option) \<Rightarrow> jsval \<Rightarrow> string list \<Rightarrow> jsval option" where
  "baseGet_loop protos object [] = Some object"
| "baseGet_loop protos object (k # ks) =
     (if nullish object then None else baseGet_loop protos (member_of protos object k) ks)"

definition baseGet :: "(kind \<Rightarrow> string \<Rightarrow> jsval option) \<Rightarrow> jsval \<Rightarrow> string \<Rightarrow> jsval" where
  "baseGet protos object path =
     (let p = castPath protos path object in
      if p = [] then Undefined
      else (case baseGet_loop protos object p of Some v \<Rightarrow> v | None \<Rightarrow> Undefined))"

definition get ::
  "(kind \<Rightarrow> string \<Rightarrow> jsval option) \<Rightarrow> jsval \<Rightarrow> string \<Rightarrow> jsval \<Rightarrow> jsval" where
  "get protos object path defaultValue =
     (let result = (if nullish object then Undefined else baseGet protos object path)
      in if result = Undefined then defaultValue else result)"

text \<open>
  For keys in plain dot notation: \<open>bracket_free\<close> keys have no bracket, and \<open>split_dots\<close>
  cuts a key at its dots.
\<close>

definition bracket_free :: "string \<Rightarrow> bool" where
  "bracket_free v = (CHR ''['' \<notin> set v \<and> CHR '']'' \<notin> set v)"

fun split_dots :: "string \<Rightarrow> string list" where
  "split_dots [] = [[]]"
| "split_dots (c # cs) =
     (if c = CHR ''.'' then [] # split_dots cs
      else (case split_dots cs of [] \<Rightarrow> [[c]] | s # ss \<Rightarrow> (c # s) # ss))"

section \<open>Matching an action by type and payload\<close>

text \<open>\<^verbatim>\<open>Array.prototype.indexOf\<close>: the first position that is \<^verbatim>\<open>===\<close> to the value, or -1.\<close>

fun indexOf_from :: "jsval list \<Rightarrow> jsval \<Rightarrow> int \<Rightarrow> int" where
  "indexOf_from [] x i = - 1"
| "indexOf_from (y # ys) x i = (if strict_eq y x then i else indexOf_from ys x (i + 1))"

definition indexOf :: "jsval list \<Rightarrow> jsval \<Rightarrow> int" where
  "indexOf xs x = indexOf_from xs x 0"

fun decimal :: "nat \<Rightarrow> string" where
  "decimal n =
     (if n < 10 then [char_of (48 + n)]
      else decimal (n div 10) @ [char_of (48 + n mod 10)])"

text \<open>
  \<^verbatim>\<open>Object.keys\<close>: throws on \<^verbatim>\<open>null\<close> and \<^verbatim>\<open>undefined\<close>; the keys of an object, the indices
  of an array or a string, nothing for the other primitives and for a function (whose
  own properties are not enumerable).
\<close>

fun object_keys :: "jsval \<Rightarrow> js_error + string list" where
  "object_keys Undefined = Inl TypeError"
| "object_keys Null = Inl TypeError"
| "object_keys (Obj r ps) = Inr (map fst ps)"
| "object_keys (Arr r xs) = Inr (map decimal [0..<length xs])"
| "object_keys (Str s) = Inr (map decimal [0..<length s])"
| "object_keys v = Inr []"

text \<open>The \<^verbatim>\<open>for (const key of keys)\<close> loop with its early \<^verbatim>\<open>return false\<close>.\<close>

fun payload_loop ::
  "(kind \<Rightarrow> string \<Rightarrow> jsval option) \<Rightarrow> jsval \<Rightarrow> jsval \<Rightarrow> string list \<Rightarrow> bool" where
  "payload_loop protos action payload [] = True"
| "payload_loop protos action payload (key # keys) =
     (let actionKey = get protos action key Undefined;
          payloadKey = get protos payload key Undefined
      in if \<not> strict_eq actionKey payloadKey then False
         else payload_loop protos action payload keys)"

text \<open>
  \<^verbatim>\<open>specificTypeAndPayload(_types, payload)(action)\<close>. \<^verbatim>\<open>action.type\<close> is read first and
  throws when the action is \<^verbatim>\<open>null\<close> or \<^verbatim>\<open>undefined\<close>; \<^verbatim>\<open>Object.keys(payload)\<close> is reached
  only when the type is one of the types asked for.
\<close>

definition specificTypeAndPayload ::
  "(kind \<Rightarrow> string \<Rightarrow> jsval option) \<Rightarrow> jsval \<Rightarrow> jsval \<Rightarrow> jsval \<Rightarrow> js_error + bool" where
  "specificTypeAndPayload protos types payload action =
     (let actionTypes = (case types of Arr r xs \<Rightarrow> xs | _ \<Rightarrow> [types]) in
      case read_property protos action ''type'' of
        Inl e \<Rightarrow> Inl e
      | Inr ty \<Rightarrow>
          if indexOf actionTypes ty = - 1 then Inr False
          else (case object_keys payload of
                  Inl e \<Rightarrow> Inl e
                | Inr keys \<Rightarrow> Inr (payload_loop protos action payload keys)))"

text \<open>
  Vocabulary for the statements about the predicate. \<open>resolve protos v p\<close> follows the
  path \<open>p\<close> through properties, own or inherited, and is \<open>None\<close> when some property on the
  way is missing. \<open>changed_at protos p a b\<close>: the objects \<open>a\<close> and \<open>b\<close> (at any addresses)
  differ at most in the field found at the path \<open>p\<close>, which may have been set, replaced
  or removed. \<open>diverge p q\<close>: the two paths part at some position, so neither leads into
  the other. \<open>unrelated p F\<close>: the field at \<open>p\<close> is not the action's type and is not on
  the way to any key of \<open>F\<close>, read as a property name or as a path.
\<close>

fun resolve ::
  "(kind \<Rightarrow> string \<Rightarrow> jsval option) \<Rightarrow> jsval \<Rightarrow> string list \<Rightarrow> jsval option" where
  "resolve protos v [] = Some v"
| "resolve protos v (k # ks) =
     (case lookup protos v k of None \<Rightarrow> None | Some c \<Rightarrow> resolve protos c ks)"

fun diverge :: "string list \<Rightarrow> string list \<Rightarrow> bool" where
  "diverge (f # p) (g # q) = (f \<noteq> g \<or> diverge p q)"
| "diverge p q = False"

fun changed_at ::
  "(kind \<Rightarrow> string \<Rightarrow> jsval option) \<Rightarrow> string list \<Rightarrow> jsval \<Rightarrow> jsval \<Rightarrow> bool" where
  "changed_at protos [] a b = True"
| "changed_at protos (f # p) (Obj r A) (Obj r' A') =
     ((\<forall>k. k \<noteq> f \<longrightarrow> map_of A' k = map_of A k)
      \<and> changed_at protos p (member_of protos (Obj r A) f) (member_of protos (Obj r' A') f))"
| "changed_at protos (f # p) a b = (a = b)"

definition unrelated :: "string list \<Rightarrow> (string \<times> jsval) list \<Rightarrow> bool" where
  "unrelated p F =
     (p \<noteq> [] \<and> hd p \<noteq> ''type''
      \<and> (\<forall>k \<in> fst ` set F. hd p \<noteq> k \<and> diverge p (stringToPath k)))"

section \<open>Network settings\<close>

text \<open>
  \<^verbatim>\<open>getNetworkSettings(state)\<close> reads \<^verbatim>\<open>STORE.getItem(networkSettingsKeyMap.networkSettings)\<close>.
  The store is a collaborator of \<^verbatim>\<open>helpers.js\<close>; what it returned is the argument
  \<open>persisted\<close>. The right operand of \<^verbatim>\<open>??\<close> is \<^verbatim>\<open>state.networkSettings\<close>.
\<close>

definition getNetworkSettings :: "jsval \<Rightarrow> jsval \<Rightarrow> js_error + jsval" where
  "getNetworkSettings persisted state =
     nullish_coalesce persisted (read_member state ''networkSettings'')"

text \<open>\<^verbatim>\<open>customNetworkSettings.walletServiceUrl == null\<close>.\<close>

definition isWalletServiceUnavailable :: "jsval \<Rightarrow> js_error + bool" where
  "isWalletServiceUnavailable customNetworkSettings =
     (case read_member customNetworkSettings ''walletServiceUrl'' of
        Inl e \<Rightarrow> Inl e
      | Inr url \<Rightarrow> Inr (nullish url))"

text \<open>
  \<^verbatim>\<open>disableFeaturesIfNeeded(customNetworkSettings, currentFeatureToggles)\<close>. The toggles
  are the property list of the object passed in, and every spread \<^verbatim>\<open>{ ...x }\<close> copies that
  list. A computed key written in an object literal overwrites the entry in place when
  the key is there and is appended otherwise, which is \<open>AList.update\<close>. The two key
  names are constants imported from \<^verbatim>\<open>src/constants.js\<close>; whatever strings they are,
  they are parameters here.
\<close>

definition disableFeaturesIfNeeded ::
  "string \<Rightarrow> string \<Rightarrow> jsval \<Rightarrow> (string \<times> jsval) list
     \<Rightarrow> js_error + (string \<times> jsval) list" where
  "disableFeaturesIfNeeded WALLET_SERVICE_FEATURE_TOGGLE PUSH_NOTIFICATION_FEATURE_TOGGLE
       customNetworkSettings currentFeatureToggles =
     (let featureToggles = currentFeatureToggles in
      case isWalletServiceUnavailable customNetworkSettings of
        Inl e \<Rightarrow> Inl e
      | Inr unavailable \<Rightarrow>
          Inr (if unavailable
               then AList.update PUSH_NOTIFICATION_FEATURE_TOGGLE (Bool False)
                      (AList.update WALLET_SERVICE_FEATURE_TOGGLE (Bool False) featureToggles)
               else featureToggles))"

section \<open>Registered tokens\<close>

text \<open>
  A token record as \<^verbatim>\<open>getRegisteredTokens\<close> returns it. The records the wallet storage
  yields may carry further fields (the record scheme); the loop copies \<^verbatim>\<open>uid\<close>,
  \<^verbatim>\<open>symbol\<close> and \<^verbatim>\<open>name\<close> only.
\<close>

record token =
  uid :: string
  symbol :: string
  name :: string

text \<open>
  \<^verbatim>\<open>wallet.storage.getRegisteredTokens()\<close> is an asynchronous iterator of the wallet
  library: a state \<open>it\<close> and a step \<open>next\<close> that answers \<open>None\<close> for \<^verbatim>\<open>{done: true}\<close> and
  \<open>Some (value, it')\<close> otherwise. Nothing makes it finite, so the \<^verbatim>\<open>while (!next.done)\<close>
  loop is a partial function: \<open>None\<close> is "never returns".
\<close>

partial_function (option) drain_tokens ::
  "('s \<Rightarrow> ('a token_scheme \<times> 's) option) \<Rightarrow> string \<Rightarrow> bool \<Rightarrow> 's \<Rightarrow> token list
     \<Rightarrow> token list option" where
  "drain_tokens next htrUid excludeHTR it tokens =
     (case next it of
        None \<Rightarrow> Some tokens
      | Some (tok, it') \<Rightarrow>
          drain_tokens next htrUid excludeHTR it'
            (if (\<not> excludeHTR) \<or> uid tok \<noteq> htrUid
             then tokens @ [\<lparr>uid = uid tok, symbol = symbol tok, name = name tok\<rparr>]
             else tokens))"

text \<open>
  \<^verbatim>\<open>getRegisteredTokens(wallet, excludeHTR)\<close>. \<^verbatim>\<open>INITIAL_TOKENS\<close> (of \<^verbatim>\<open>src/constants.js\<close>)
  and \<^verbatim>\<open>hathorLib.constants.HATHOR_TOKEN_CONFIG.uid\<close> (of the wallet library) are
  constants imported from other modules, hence parameters.
  \<^verbatim>\<open>tokens.unshift(...INITIAL_TOKENS)\<close> puts the initial tokens in front, in their order.
\<close>

definition getRegisteredTokens ::
  "token list \<Rightarrow> string \<Rightarrow> ('s \<Rightarrow> ('a token_scheme \<times> 's) option) \<Rightarrow> 's \<Rightarrow> bool
     \<Rightarrow> token list option" where
  "getRegisteredTokens INITIAL_TOKENS htrUid next it excludeHTR =
     (case drain_tokens next htrUid excludeHTR it [] of
        None \<Rightarrow> None
      | Some tokens \<Rightarrow> Some (if \<not> excludeHTR then INITIAL_TOKENS @ tokens else tokens))"

text \<open>
  \<open>yields next it xs\<close>: from the state \<open>it\<close> the iterator hands out exactly the records
  \<open>xs\<close>, in this order, and then reports that it is done. \<open>list_next\<close> is the iterator
  over a list held in memory.
\<close>

fun yields :: "('s \<Rightarrow> ('t \<times> 's) option) \<Rightarrow> 's \<Rightarrow> 't list \<Rightarrow> bool" where
  "yields next it [] = (next it = None)"
| "yields next it (x # xs) =
     (case next it of None \<Rightarrow> False | Some (y, it') \<Rightarrow> y = x \<and> yields next it' xs)"

definition list_next :: "'t list \<Rightarrow> ('t \<times> 't list) option" where
  "list_next xs = (case xs of [] \<Rightarrow> None | x # rest \<Rightarrow> Some (x, rest))"

definition copy_token :: "'a token_scheme \<Rightarrow> token" where
  "copy_token tok = \<lparr>uid = uid tok, symbol = symbol tok, name = name tok\<rparr>"

section \<open>Sagas\<close>

text \<open>
  A generator of \<^verbatim>\<open>helpers.js\<close> is the tree of what it yields: each node is one effect of
  redux-saga and, where the generator goes on with the value the effect gives back, the
  continuation from that value. \<open>Return\<close> and \<open>Throw\<close> end it. \<open>Log\<close> is \<^verbatim>\<open>console.error\<close>
  (not an effect, but it is what the generator does between two yields); it keeps the
  values named in the message rather than the formatted text. The only race of the file
  races takes, so a race holds its keys in the order they are written, each with the
  pattern it takes.
\<close>

datatype pattern =
    PString string
  | PPredicate "jsval \<Rightarrow> bool"
  | PArray "pattern list"

datatype fault = Thrown jsval | Native js_error

type_synonym rstate = "(string \<times> jsval) list"

datatype 'r saga =
    Return 'r
  | Throw fault
  | Put jsval "'r saga"
  | Select "rstate \<Rightarrow> jsval" "jsval \<Rightarrow> 'r saga"
  | Take pattern "jsval \<Rightarrow> 'r saga"
  | Race "(string \<times> pattern) list" "jsval \<Rightarrow> 'r saga"
  | Log jsval fault "'r saga"

text \<open>
  \<^verbatim>\<open>yield call(saga, ...args)\<close> runs the called generator in place and goes on with what
  it returned; a fault of the callee is thrown at the \<^verbatim>\<open>yield\<close>.
\<close>

primrec call :: "'a saga \<Rightarrow> ('a \<Rightarrow> 'b saga) \<Rightarrow> 'b saga" where
  "call (Return v) f = f v"
| "call (Throw e) f = Throw e"
| "call (Put a k) f = Put a (call k f)"
| "call (Select sel k) f = Select sel (\<lambda>v. call (k v) f)"
| "call (Take p k) f = Take p (\<lambda>v. call (k v) f)"
| "call (Race bs k) f = Race bs (\<lambda>v. call (k v) f)"
| "call (Log m e k) f = Log m e (call k f)"

text \<open>\<^verbatim>\<open>try { body } catch (e) { handler }\<close> around a generator body.\<close>

primrec try_catch :: "'r saga \<Rightarrow> (fault \<Rightarrow> 'r saga) \<Rightarrow> 'r saga" where
  "try_catch (Return v) h = Return v"
| "try_catch (Throw e) h = h e"
| "try_catch (Put a k) h = Put a (try_catch k h)"
| "try_catch (Select sel k) h = Select sel (\<lambda>v. try_catch (k v) h)"
| "try_catch (Take p k) h = Take p (\<lambda>v. try_catch (k v) h)"
| "try_catch (Race bs k) h = Race bs (\<lambda>v. try_catch (k v) h)"
| "try_catch (Log m e k) h = Log m e (try_catch k h)"

text \<open>
  \<^verbatim>\<open>state.key\<close> on the redux state, which is always an object and is held as its entries;
  the fields of the state read here are not names of built-in members.
\<close>

definition entry :: "(string \<times> jsval) list \<Rightarrow> string \<Rightarrow> jsval" where
  "entry object k = (case map_of object k of Some v \<Rightarrow> v | None \<Rightarrow> Undefined)"

text \<open>
  \<^verbatim>\<open>waitForFeatureToggleInitialization\<close>; the parameter is the constant
  \<^verbatim>\<open>types.FEATURE_TOGGLE_INITIALIZED\<close> of \<^verbatim>\<open>src/actions.js\<close>.
\<close>

definition waitForFeatureToggleInitialization :: "string \<Rightarrow> jsval saga" where
  "waitForFeatureToggleInitialization FEATURE_TOGGLE_INITIALIZED =
     Select (\<lambda>state. entry state ''featureTogglesInitialized'')
       (\<lambda>featureTogglesInitialized.
          if \<not> truthy featureTogglesInitialized
          then Take (PString FEATURE_TOGGLE_INITIALIZED) (\<lambda>_. Return Undefined)
          else Return Undefined)"

text \<open>\<^verbatim>\<open>a || b\<close>\<close>

definition logical_or :: "jsval \<Rightarrow> jsval \<Rightarrow> jsval" where
  "logical_or a b = (if truthy a then a else b)"

text \<open>
  \<^verbatim>\<open>checkForFeatureFlag(flag)\<close>. \<open>FEATURE_TOGGLE_DEFAULTS\<close> is the constant object of
  \<^verbatim>\<open>src/constants.js\<close>, a parameter (its entries, at address 0: the address plays no role);
  \<^verbatim>\<open>FEATURE_TOGGLE_DEFAULTS[flag]\<close> reads a property named by the caller, own or inherited.
\<close>

definition checkForFeatureFlag ::
  "(kind \<Rightarrow> string \<Rightarrow> jsval option) \<Rightarrow> string \<Rightarrow> (string \<times> jsval) list \<Rightarrow> string
     \<Rightarrow> jsval saga" where
  "checkForFeatureFlag protos FEATURE_TOGGLE_INITIALIZED FEATURE_TOGGLE_DEFAULTS flag =
     call (waitForFeatureToggleInitialization FEATURE_TOGGLE_INITIALIZED)
       (\<lambda>_. Select (\<lambda>state. entry state ''featureToggles'')
          (\<lambda>featureToggles.
             Return (get protos featureToggles flag
                       (logical_or (member_of protos (Obj 0 FEATURE_TOGGLE_DEFAULTS) flag)
                          (Bool False)))))"

text \<open>
  What the specification says \<^verbatim>\<open>checkForFeatureFlag\<close> returns, from a toggle set and defaults
  given by their entries: the toggle set's value for the flag if present, otherwise the
  default for the flag if present, otherwise \<^verbatim>\<open>false\<close>.
\<close>

definition flag_value_spec ::
  "(string \<times> jsval) list \<Rightarrow> (string \<times> jsval) list \<Rightarrow> string \<Rightarrow> jsval" where
  "flag_value_spec toggles defaults flag =
     (case map_of toggles flag of
        Some v \<Rightarrow> v
      | None \<Rightarrow> (case map_of defaults flag of Some d \<Rightarrow> d | None \<Rightarrow> Bool False))"

text \<open>
  \<open>own_name protos flag\<close>: the flag is in plain dot notation, and neither the flag nor any
  of its segments is the name of a member that some kind of value inherits.
\<close>

definition own_name :: "(kind \<Rightarrow> string \<Rightarrow> jsval option) \<Rightarrow> string \<Rightarrow> bool" where
  "own_name protos flag =
     (bracket_free flag
      \<and> (\<forall>seg \<in> set (flag # split_dots flag).
            list_all (\<lambda>kd. protos kd seg = None)
              [KObject, KArray, KString, KNumber, KBoolean, KFunction]))"

text \<open>\<^verbatim>\<open>dispatchAndWait(action, successAction, failureAction)\<close>; the second key is spelt
  \<^verbatim>\<open>falure\<close> in the source.\<close>

definition dispatchAndWait :: "jsval \<Rightarrow> pattern \<Rightarrow> pattern \<Rightarrow> jsval saga" where
  "dispatchAndWait action successAction failureAction =
     Put action
       (Race [(''success'', successAction), (''falure'', failureAction)] (\<lambda>r. Return r))"

text \<open>
  \<^verbatim>\<open>errorHandler(saga, failureAction)\<close> returns the generator \<^verbatim>\<open>handleAction(action)\<close>. The
  message of \<^verbatim>\<open>console.error\<close> reads \<^verbatim>\<open>action.type\<close> inside the \<^verbatim>\<open>catch\<close> block, which throws
  when the action is \<^verbatim>\<open>null\<close> or \<^verbatim>\<open>undefined\<close>.
\<close>

definition errorHandler :: "(jsval \<Rightarrow> jsval saga) \<Rightarrow> jsval \<Rightarrow> jsval \<Rightarrow> jsval saga" where
  "errorHandler saga failureAction action =
     try_catch (call (saga action) (\<lambda>_. Return Undefined))
       (\<lambda>e. case read_member action ''type'' of
               Inl err \<Rightarrow> Throw (Native err)
             | Inr ty \<Rightarrow> Log ty e (Put failureAction (Return Undefined)))"

subsection \<open>The middleware\<close>

text \<open>
  Modelled from the spec: redux-saga, which runs the generators, is a library outside
  the repository; the spec describes what it does for them (sections 5 and 6, and the
  glossary entry for a race). Coordination routines run one at a time; an emitted event
  goes through the store's reducer first and then to every waiter; a routine suspended on
  a pattern resumes on the first event emitted after it started waiting that matches,
  never on an earlier one; a race resumes on the first event that matches one of its
  branches, with an object holding that event under the branch's key, and its other
  listeners are dropped.

  A task is the status of one routine and what it has done so far. \<open>advance\<close> runs the
  routine until it suspends or ends; \<open>deliver\<close> hands it one event emitted by somebody
  else; \<open>feed\<close> hands it a sequence of events. \<open>resumed\<close> counts the resumptions from a
  suspension. The object a race answers with is new; its address (0 here) plays no role.
\<close>

text \<open>
  What a pattern accepts, as redux-saga documents it: a string accepts the actions of
  that type, and \<^verbatim>\<open>'*'\<close> every action; a function the actions it is true of; an array the
  actions one of its patterns accepts.
\<close>

fun matches :: "pattern \<Rightarrow> jsval \<Rightarrow> bool" where
  "matches (PString s) a = (s = ''*'' \<or> get_prop a ''type'' = Str s)"
| "matches (PPredicate f) a = f a"
| "matches (PArray ps) a = list_ex (\<lambda>p. matches p a) ps"

datatype 'r status =
    Waiting "(string option \<times> pattern) list" "jsval \<Rightarrow> 'r saga"
  | Done 'r
  | Failed fault

record ctx =
  store :: rstate
  emitted :: "jsval list"
  console :: "(jsval \<times> fault) list"
  resumed :: nat

primrec advance :: "(rstate \<Rightarrow> jsval \<Rightarrow> rstate) \<Rightarrow> 'r saga \<Rightarrow> ctx \<Rightarrow> 'r status \<times> ctx" where
  "advance reducer (Return v) c = (Done v, c)"
| "advance reducer (Throw e) c = (Failed e, c)"
| "advance reducer (Put a k) c =
     advance reducer k (c\<lparr>store := reducer (store c) a, emitted := emitted c @ [a]\<rparr>)"
| "advance reducer (Select sel k) c = advance reducer (k (sel (store c))) c"
| "advance reducer (Take p k) c = (Waiting [(None, p)] k, c)"
| "advance reducer (Race bs k) c = (Waiting (map (\<lambda>(key, p). (Some key, p)) bs) k, c)"
| "advance reducer (Log m e k) c = advance reducer k (c\<lparr>console := console c @ [(m, e)]\<rparr>)"

definition deliver ::
  "(rstate \<Rightarrow> jsval \<Rightarrow> rstate) \<Rightarrow> 'r status \<times> ctx \<Rightarrow> jsval \<Rightarrow> 'r status \<times> ctx" where
  "deliver reducer t ev =
     (let c = (snd t)\<lparr>store := reducer (store (snd t)) ev\<rparr> in
      case fst t of
        Waiting ls k \<Rightarrow>
          (case find (\<lambda>(key, p). matches p ev) ls of
             None \<Rightarrow> (Waiting ls k, c)
           | Some (None, p) \<Rightarrow> advance reducer (k ev) (c\<lparr>resumed := resumed c + 1\<rparr>)
           | Some (Some key, p) \<Rightarrow>
               advance reducer (k (Obj 0 [(key, ev)])) (c\<lparr>resumed := resumed c + 1\<rparr>))
      | Done v \<Rightarrow> (Done v, c)
      | Failed e \<Rightarrow> (Failed e, c))"

definition feed ::
  "(rstate \<Rightarrow> jsval \<Rightarrow> rstate) \<Rightarrow> 'r status \<times> ctx \<Rightarrow> jsval list \<Rightarrow> 'r status \<times> ctx" where
  "feed reducer t evs = foldl (deliver reducer) t evs"

definition start :: "rstate \<Rightarrow> ctx" where
  "start state = \<lparr>store = state, emitted = [], console = [], resumed = 0\<rparr>"

definition listeners :: "'r status \<Rightarrow> (string option \<times> pattern) list" where
  "listeners s = (case s of Waiting ls k \<Rightarrow> ls | _ \<Rightarrow> [])"

text \<open>A whole run: the routine started on a state, then the events that follow.\<close>

definition run ::
  "(rstate \<Rightarrow> jsval \<Rightarrow> rstate) \<Rightarrow> 'r saga \<Rightarrow> rstate \<Rightarrow> jsval list \<Rightarrow> 'r status \<times> ctx" where
  "run reducer saga state evs = feed reducer (advance reducer saga (start state)) evs"

text \<open>
  For the error boundary: \<open>supervised\<close> is the body of \<^verbatim>\<open>handleAction\<close> once \<^verbatim>\<open>action.type\<close>
  has been read, around any routine \<open>m\<close>. \<open>shadows\<close> relates a task running \<open>m\<close> alone to
  the task running it supervised, fed the same events: while \<open>m\<close> is suspended both wait on
  the same listeners with the same past; once \<open>m\<close> has returned so has the supervised one,
  with the same past; once \<open>m\<close> has failed the supervised one has returned, its events
  those of \<open>m\<close> and then the failure action, its console lines those of \<open>m\<close> and then the
  diagnostic.
\<close>

definition handler :: "jsval \<Rightarrow> jsval \<Rightarrow> fault \<Rightarrow> jsval saga" where
  "handler ty failureAction = (\<lambda>e. Log ty e (Put failureAction (Return Undefined)))"

definition supervised :: "jsval \<Rightarrow> jsval \<Rightarrow> 'a saga \<Rightarrow> jsval saga" where
  "supervised ty failureAction m =
     try_catch (call m (\<lambda>_. Return Undefined)) (handler ty failureAction)"

definition shadows ::
  "jsval \<Rightarrow> jsval \<Rightarrow> 'a status \<times> ctx \<Rightarrow> jsval status \<times> ctx \<Rightarrow> bool" where
  "shadows ty failureAction tR tW =
     (case fst tR of
        Waiting ls k \<Rightarrow>
          fst tW = Waiting ls (\<lambda>v. supervised ty failureAction (k v)) \<and> snd tW = snd tR
      | Done v \<Rightarrow> fst tW = Done Undefined \<and> snd tW = snd tR
      | Failed e \<Rightarrow>
          fst tW = Done Undefined
          \<and> emitted (snd tW) = emitted (snd tR) @ [failureAction]
          \<and> console (snd tW) = console (snd tR) @ [(ty, e)]
          \<and> resumed (snd tW) = resumed (snd tR))"

section \<open>The pin screen\<close>

text \<open>
  \<^verbatim>\<open>showPinScreenForResult(dispatch)\<close> talks to three collaborators: the navigation
  service, the \<^verbatim>\<open>dispatch\<close> function it is given, and the promise it returns. What it does
  to them is recorded in order: \<open>Navigate\<close> is \<^verbatim>\<open>NavigationService.navigate(screen, params)\<close>,
  \<open>Dispatch b\<close> is \<^verbatim>\<open>dispatch(setIsShowingPinScreen(b))\<close>, \<open>Resolve pin\<close> is the promise being
  settled with the pin (a promise settles once: a later \<^verbatim>\<open>resolve\<close> does nothing). The
  \<^verbatim>\<open>cb\<close> field of the parameters is the function \<open>cb\<close> below. \<open>t\<close> is the translation
  function of \<^verbatim>\<open>ttag\<close>. The pin screen is another component: the pins it calls \<^verbatim>\<open>cb\<close> with
  while \<^verbatim>\<open>navigate\<close> runs (\<open>during\<close>) and afterwards (\<open>later\<close>) are parameters.
\<close>

record pin_params =
  canCancel :: bool
  screenText :: string
  biometryText :: string

datatype pin_event =
    Navigate string pin_params
  | Dispatch bool
  | Resolve string

record pin_session =
  trace :: "pin_event list"
  promise :: "string option"

definition dispatch :: "bool \<Rightarrow> pin_session \<Rightarrow> pin_session" where
  "dispatch b s = s\<lparr>trace := trace s @ [Dispatch b]\<rparr>"

definition resolve_promise :: "string \<Rightarrow> pin_session \<Rightarrow> pin_session" where
  "resolve_promise v s =
     (if promise s = None then s\<lparr>trace := trace s @ [Resolve v], promise := Some v\<rparr> else s)"

definition cb :: "pin_session \<Rightarrow> string \<Rightarrow> pin_session" where
  "cb s pin = resolve_promise pin (dispatch False s)"

definition showPinScreenForResult ::
  "(string \<Rightarrow> string) \<Rightarrow> string list \<Rightarrow> string list \<Rightarrow> pin_session" where
  "showPinScreenForResult t during later =
     (let params = \<lparr>canCancel = False,
                     screenText = t ''Enter your 6-digit pin to authorize operation'',
                     biometryText = t ''Authorize operation''\<rparr>;
          s1 = \<lparr>trace = [Navigate ''PinScreen'' params], promise = None\<rparr>;
          s2 = foldl cb s1 during;
          s3 = dispatch True s2
      in foldl cb s3 later)"

text \<open>
  \<open>shown_before_navigate\<close>: the flag has been set to true before the first call of the
  navigation service.
\<close>

fun is_navigate :: "pin_event \<Rightarrow> bool" where
  "is_navigate (Navigate screen params) = True"
| "is_navigate e = False"

definition shown_before_navigate :: "pin_event list \<Rightarrow> bool" where
  "shown_before_navigate tr =
     list_ex (\<lambda>e. e = Dispatch True) (takeWhile (\<lambda>e. \<not> is_navigate e) tr)"

section \<open>Network settings: theorems\<close>

text \<open>
  C3. \<^verbatim>\<open>getNetworkSettings\<close> returns the persisted value whenever it is neither \<^verbatim>\<open>null\<close>
  nor \<^verbatim>\<open>undefined\<close>, whatever the state is and also when the persisted value is falsy
  (an empty object, an empty string, zero, \<^verbatim>\<open>false\<close>); it returns \<^verbatim>\<open>state.networkSettings\<close>
  exactly when the persisted value is \<^verbatim>\<open>null\<close> or \<^verbatim>\<open>undefined\<close>.
\<close>

theorem getNetworkSettings_persisted_wins:
  "(\<not> nullish persisted \<longrightarrow> getNetworkSettings persisted state = Inr persisted)
   \<and> (nullish persisted \<longrightarrow>
        getNetworkSettings persisted (Obj r st) = Inr (get_prop (Obj r st) ''networkSettings''))
   \<and> getNetworkSettings (Obj a []) state = Inr (Obj a [])
   \<and> getNetworkSettings (Str []) state = Inr (Str [])
   \<and> getNetworkSettings (Num 0) state = Inr (Num 0)
   \<and> getNetworkSettings (Bool False) state = Inr (Bool False)"
  by (simp add: getNetworkSettings_def nullish_coalesce_def read_member_def nullish_def)

theorem getNetworkSettings_persisted_wins_witness:
  "\<not> nullish (Obj 1 []) \<and> nullish Null
   \<and> getNetworkSettings (Obj 1 []) (Obj 2 [(''networkSettings'', Obj 3 [(''stage'', Str ''mainnet'')])])
       = Inr (Obj 1 [])
   \<and> getNetworkSettings Null (Obj 2 [(''networkSettings'', Obj 3 [(''stage'', Str ''mainnet'')])])
       = Inr (Obj 3 [(''stage'', Str ''mainnet'')])"
  using getNetworkSettings_persisted_wins
    [of "Obj 1 []" "Obj 2 [(''networkSettings'', Obj 3 [(''stage'', Str ''mainnet'')])]"]
    getNetworkSettings_persisted_wins
    [of Null "Obj 2 [(''networkSettings'', Obj 3 [(''stage'', Str ''mainnet'')])]" 2
       "[(''networkSettings'', Obj 3 [(''stage'', Str ''mainnet'')])]"]
  by (simp add: nullish_def get_prop_def)

lemma filter_update_other:
  "\<forall>v'. \<not> P (k, v') \<Longrightarrow> filter P (AList.update k v ps) = filter P ps"
  by (induction ps) auto

lemma disable_forced:
  "map_of (AList.update pn (Bool False) (AList.update ws (Bool False) t)) ws = Some (Bool False)
   \<and> map_of (AList.update pn (Bool False) (AList.update ws (Bool False) t)) pn = Some (Bool False)"
  by (simp add: update_conv')

lemma disable_fixpoint:
  "AList.update pn (Bool False) (AList.update ws (Bool False)
     (AList.update pn (Bool False) (AList.update ws (Bool False) t)))
   = AList.update pn (Bool False) (AList.update ws (Bool False) t)"
  using disable_forced [of pn ws t] by (simp add: update_triv)

text \<open>
  C6. For settings \<open>s\<close> that are an object (anything but \<^verbatim>\<open>null\<close> and \<^verbatim>\<open>undefined\<close>) and
  every toggle set \<open>t\<close>, \<^verbatim>\<open>disableFeaturesIfNeeded\<close> returns a toggle set \<open>t'\<close> on which a
  second application with the same settings returns \<open>t'\<close> again. When
  \<^verbatim>\<open>walletServiceUrl\<close> is \<^verbatim>\<open>null\<close> or absent, \<open>t'\<close> holds \<^verbatim>\<open>false\<close> under the wallet-service and
  push-notification keys, and its other entries are those of \<open>t\<close>, in the same order
  with the same values; otherwise \<open>t'\<close> is \<open>t\<close>.
\<close>

theorem disableFeaturesIfNeeded_idempotent:
  assumes "\<not> nullish s"
  shows "\<exists>t'. disableFeaturesIfNeeded ws pn s t = Inr t'
           \<and> disableFeaturesIfNeeded ws pn s t' = Inr t'
           \<and> (nullish (get_prop s ''walletServiceUrl'') \<longrightarrow>
                 map_of t' ws = Some (Bool False) \<and> map_of t' pn = Some (Bool False)
               \<and> filter (\<lambda>p. fst p \<noteq> ws \<and> fst p \<noteq> pn) t'
                   = filter (\<lambda>p. fst p \<noteq> ws \<and> fst p \<noteq> pn) t)
           \<and> (\<not> nullish (get_prop s ''walletServiceUrl'') \<longrightarrow> t' = t)"
proof (cases "nullish (get_prop s ''walletServiceUrl'')")
  case True
  let ?t' = "AList.update pn (Bool False) (AList.update ws (Bool False) t)"
  have run: "disableFeaturesIfNeeded ws pn s u
               = Inr (AList.update pn (Bool False) (AList.update ws (Bool False) u))" for u
    using assms True
    by (simp add: disableFeaturesIfNeeded_def isWalletServiceUnavailable_def read_member_def)
  have keep: "filter (\<lambda>p. fst p \<noteq> ws \<and> fst p \<noteq> pn) ?t'
                = filter (\<lambda>p. fst p \<noteq> ws \<and> fst p \<noteq> pn) t"
    by (simp add: filter_update_other)
  show ?thesis
    using True run [of t] run [of ?t'] disable_fixpoint [of pn ws t] disable_forced [of pn ws t] keep
    by auto
next
  case False
  have "disableFeaturesIfNeeded ws pn s u = Inr u" for u
    using assms False
    by (simp add: disableFeaturesIfNeeded_def isWalletServiceUnavailable_def read_member_def)
  then show ?thesis using False by simp
qed

theorem disableFeaturesIfNeeded_idempotent_witness:
  "\<not> nullish (Obj 1 [(''walletServiceUrl'', Null)])
   \<and> nullish (get_prop (Obj 1 [(''walletServiceUrl'', Null)]) ''walletServiceUrl'')
   \<and> disableFeaturesIfNeeded ''walletService'' ''pushNotification''
         (Obj 1 [(''walletServiceUrl'', Null)])
         [(''walletService'', Bool True), (''pushNotification'', Bool True), (''other'', Bool True)]
       = Inr [(''walletService'', Bool False), (''pushNotification'', Bool False),
              (''other'', Bool True)]
   \<and> disableFeaturesIfNeeded ''walletService'' ''pushNotification''
         (Obj 1 [(''walletServiceUrl'', Null)])
         [(''walletService'', Bool False), (''pushNotification'', Bool False), (''other'', Bool True)]
       = Inr [(''walletService'', Bool False), (''pushNotification'', Bool False),
              (''other'', Bool True)]"
  using disableFeaturesIfNeeded_idempotent
    [of "Obj 1 [(''walletServiceUrl'', Null)]" "''walletService''" "''pushNotification''"
        "[(''walletService'', Bool True), (''pushNotification'', Bool True), (''other'', Bool True)]"]
  by (simp add: disableFeaturesIfNeeded_def isWalletServiceUnavailable_def read_member_def
      nullish_def get_prop_def)

section \<open>Registered tokens: theorems\<close>

lemma drain_tokens_yields:
  "yields next it xs \<Longrightarrow>
   drain_tokens next htrUid excludeHTR it acc
     = Some (acc @ map copy_token (filter (\<lambda>tok. (\<not> excludeHTR) \<or> uid tok \<noteq> htrUid) xs))"
proof (induction xs arbitrary: it acc)
  case Nil
  then show ?case by (subst drain_tokens.simps) simp
next
  case (Cons x xs)
  from Cons.prems obtain it' where step: "next it = Some (x, it')" and rest: "yields next it' xs"
    by (auto split: option.splits)
  show ?case
    by (subst drain_tokens.simps) (simp add: step Cons.IH [OF rest] copy_token_def)
qed

lemma yields_list_next: "yields list_next xs xs"
  by (induction xs) (simp_all add: list_next_def)

text \<open>
  C7. Whatever finite sequence \<open>xs\<close> of records the registry iterator yields,
  \<^verbatim>\<open>getRegisteredTokens\<close> with \<^verbatim>\<open>excludeHTR = false\<close> returns, and its result is the initial
  tokens in their declared order followed by the copies (\<^verbatim>\<open>uid\<close>, \<^verbatim>\<open>symbol\<close>, \<^verbatim>\<open>name\<close>) of
  the records of \<open>xs\<close> in their order: nothing is dropped, so a token that is both an
  initial token and a registered one appears twice.
\<close>

theorem getRegisteredTokens_defaults_first:
  assumes "yields next it xs"
  shows "getRegisteredTokens INITIAL_TOKENS htrUid next it False
           = Some (INITIAL_TOKENS @ map copy_token xs)
         \<and> (\<forall>ys. getRegisteredTokens INITIAL_TOKENS htrUid next it False = Some ys \<longrightarrow>
               length ys = length INITIAL_TOKENS + length xs)"
  using drain_tokens_yields [OF assms, of htrUid False "[]"]
  by (simp add: getRegisteredTokens_def)

theorem getRegisteredTokens_defaults_first_witness:
  "yields list_next
     [\<lparr>uid = ''00'', symbol = ''HTR'', name = ''Hathor''\<rparr>,
      \<lparr>uid = ''0a'', symbol = ''TKA'', name = ''Token A''\<rparr>]
     [\<lparr>uid = ''00'', symbol = ''HTR'', name = ''Hathor''\<rparr>,
      \<lparr>uid = ''0a'', symbol = ''TKA'', name = ''Token A''\<rparr>]
   \<and> getRegisteredTokens [\<lparr>uid = ''00'', symbol = ''HTR'', name = ''Hathor''\<rparr>] ''00'' list_next
       [\<lparr>uid = ''00'', symbol = ''HTR'', name = ''Hathor''\<rparr>,
        \<lparr>uid = ''0a'', symbol = ''TKA'', name = ''Token A''\<rparr>] False
     = Some [\<lparr>uid = ''00'', symbol = ''HTR'', name = ''Hathor''\<rparr>,
             \<lparr>uid = ''00'', symbol = ''HTR'', name = ''Hathor''\<rparr>,
             \<lparr>uid = ''0a'', symbol = ''TKA'', name = ''Token A''\<rparr>]"
  using getRegisteredTokens_defaults_first
    [of list_next
        "[\<lparr>uid = ''00'', symbol = ''HTR'', name = ''Hathor''\<rparr>,
          \<lparr>uid = ''0a'', symbol = ''TKA'', name = ''Token A''\<rparr>]"
        "[\<lparr>uid = ''00'', symbol = ''HTR'', name = ''Hathor''\<rparr>,
          \<lparr>uid = ''0a'', symbol = ''TKA'', name = ''Token A''\<rparr>]"
        "[\<lparr>uid = ''00'', symbol = ''HTR'', name = ''Hathor''\<rparr>]" "''00''"]
  by (simp add: list_next_def copy_token_def)

text \<open>
  C8. Whatever finite sequence \<open>xs\<close> of records the registry iterator yields,
  \<^verbatim>\<open>getRegisteredTokens\<close> with \<^verbatim>\<open>excludeHTR = true\<close> returns, and no record of its result
  has the uid of the native token: the result is the copies of the records of \<open>xs\<close>
  whose uid differs from it, and the initial tokens are not added.
\<close>

theorem getRegisteredTokens_excludes_native:
  assumes "yields next it xs"
  shows "\<exists>ys. getRegisteredTokens INITIAL_TOKENS htrUid next it True = Some ys
           \<and> ys = map copy_token (filter (\<lambda>tok. uid tok \<noteq> htrUid) xs)
           \<and> (\<forall>tok \<in> set ys. uid tok \<noteq> htrUid)"
  using drain_tokens_yields [OF assms, of htrUid True "[]"]
  by (auto simp add: getRegisteredTokens_def copy_token_def)

theorem getRegisteredTokens_excludes_native_witness:
  "yields list_next
     [\<lparr>uid = ''00'', symbol = ''HTR'', name = ''Hathor''\<rparr>,
      \<lparr>uid = ''0a'', symbol = ''TKA'', name = ''Token A''\<rparr>]
     [\<lparr>uid = ''00'', symbol = ''HTR'', name = ''Hathor''\<rparr>,
      \<lparr>uid = ''0a'', symbol = ''TKA'', name = ''Token A''\<rparr>]
   \<and> getRegisteredTokens [\<lparr>uid = ''00'', symbol = ''HTR'', name = ''Hathor''\<rparr>] ''00'' list_next
       [\<lparr>uid = ''00'', symbol = ''HTR'', name = ''Hathor''\<rparr>,
        \<lparr>uid = ''0a'', symbol = ''TKA'', name = ''Token A''\<rparr>] True
     = Some [\<lparr>uid = ''0a'', symbol = ''TKA'', name = ''Token A''\<rparr>]"
  using getRegisteredTokens_excludes_native
    [of list_next
        "[\<lparr>uid = ''00'', symbol = ''HTR'', name = ''Hathor''\<rparr>,
          \<lparr>uid = ''0a'', symbol = ''TKA'', name = ''Token A''\<rparr>]"
        "[\<lparr>uid = ''00'', symbol = ''HTR'', name = ''Hathor''\<rparr>,
          \<lparr>uid = ''0a'', symbol = ''TKA'', name = ''Token A''\<rparr>]"
        "[\<lparr>uid = ''00'', symbol = ''HTR'', name = ''Hathor''\<rparr>]" "''00''"]
  by (simp add: list_next_def copy_token_def)

section \<open>Matching an action by type and payload: theorems\<close>

lemma indexOf_from_found:
  "0 \<le> i \<Longrightarrow> indexOf_from xs x i \<noteq> - 1 \<longleftrightarrow> (\<exists>y \<in> set xs. strict_eq y x)"
proof (induction xs x i rule: indexOf_from.induct)
  case (1 x i)
  then show ?case by simp
next
  case (2 y ys x i)
  then show ?case by auto
qed

lemma indexOf_found: "indexOf xs x \<noteq> - 1 \<longleftrightarrow> (\<exists>y \<in> set xs. strict_eq y x)"
  by (simp add: indexOf_def indexOf_from_found)

lemma payload_loop_all:
  "payload_loop protos action payload keys
     \<longleftrightarrow> (\<forall>k \<in> set keys.
            strict_eq (get protos action k Undefined) (get protos payload k Undefined))"
  by (induction keys) (auto simp add: Let_def)

lemma lookup_Obj:
  "lookup protos (Obj r A) k
     = (case map_of A k of Some x \<Rightarrow> Some x | None \<Rightarrow> protos KObject k)"
  by (simp add: lookup_def split: option.splits)

lemma get_own_key:
  assumes "k \<in> fst ` set F"
  shows "get protos (Obj r F) k d
           = (if the (map_of F k) = Undefined then d else the (map_of F k))"
proof -
  from assms obtain v where v: "map_of F k = Some v"
    by (metis domD dom_map_of_conv_image_fst)
  then have "castPath protos k (Obj r F) = [k]"
    by (simp add: castPath_def isKey_def lookup_Obj nullish_def)
  then show ?thesis
    using v by (simp add: get_def baseGet_def nullish_def member_of_def lookup_Obj)
qed

lemma baseGet_loop_changed:
  "changed_at protos p a b \<Longrightarrow> diverge p q \<Longrightarrow>
   baseGet_loop protos a q = baseGet_loop protos b q"
proof (induction protos p a b arbitrary: q rule: changed_at.induct)
  case (1 protos a b)
  then show ?case by simp
next
  case (2 protos f p r A r' A')
  from "2.prems"(2) obtain g q' where q: "q = g # q'" and d: "f \<noteq> g \<or> diverge p q'"
    by (cases q) auto
  show ?case
  proof (cases "g = f")
    case True
    with d have "diverge p q'" by simp
    with 2 have "baseGet_loop protos (member_of protos (Obj r A) f) q'
                   = baseGet_loop protos (member_of protos (Obj r' A') f) q'"
      by simp
    with True q show ?thesis by (simp add: nullish_def)
  next
    case False
    with "2.prems"(1) have "member_of protos (Obj r A) g = member_of protos (Obj r' A') g"
      by (simp add: member_of_def lookup_Obj)
    with q show ?thesis by (simp add: nullish_def)
  qed
qed simp_all

lemma baseGet_loop_undefined:
  "(case baseGet_loop protos Undefined p of Some x \<Rightarrow> x | None \<Rightarrow> Undefined) = Undefined"
  by (cases p) (simp_all add: nullish_def)

lemma baseGet_loop_resolve:
  "(case baseGet_loop protos v p of Some x \<Rightarrow> x | None \<Rightarrow> Undefined)
     = (case resolve protos v p of Some x \<Rightarrow> x | None \<Rightarrow> Undefined)"
proof (induction p arbitrary: v)
  case Nil
  then show ?case by simp
next
  case (Cons k ks)
  show ?case
  proof (cases "lookup protos v k")
    case None
    then show ?thesis
      using baseGet_loop_undefined [of protos ks] by (simp add: member_of_def)
  next
    case (Some c)
    then have "\<not> nullish v" by (auto simp add: nullish_def lookup_def)
    with Some show ?thesis using Cons.IH [of c] by (simp add: member_of_def)
  qed
qed

lemma get_missing:
  assumes "resolve protos (Obj r A) (castPath protos k (Obj r A)) = None"
  shows "get protos (Obj r A) k Undefined = Undefined"
  using baseGet_loop_resolve [of protos "Obj r A" "castPath protos k (Obj r A)"] assms
  by (simp add: get_def baseGet_def nullish_def Let_def)

lemma get_changed:
  assumes ch: "changed_at protos p (Obj r A) (Obj r' A')" and ne: "p \<noteq> []"
    and k: "hd p \<noteq> k" and dv: "diverge p (stringToPath k)"
  shows "get protos (Obj r' A') k d = get protos (Obj r A) k d"
proof -
  from ne obtain f p' where p: "p = f # p'" by (cases p) auto
  with ch k have same: "lookup protos (Obj r' A') k = lookup protos (Obj r A) k"
    by (simp add: lookup_Obj)
  then have path: "castPath protos k (Obj r' A') = castPath protos k (Obj r A)"
    by (simp add: castPath_def isKey_def nullish_def)
  have "baseGet_loop protos (Obj r' A') (castPath protos k (Obj r A))
          = baseGet_loop protos (Obj r A) (castPath protos k (Obj r A))"
  proof (cases "isKey protos k (Obj r A)")
    case True
    then show ?thesis using same by (simp add: castPath_def nullish_def member_of_def)
  next
    case False
    then have "castPath protos k (Obj r A) = stringToPath k"
      by (simp add: castPath_def)
    with baseGet_loop_changed [OF ch dv] show ?thesis by simp
  qed
  with path show ?thesis by (simp add: get_def baseGet_def nullish_def Let_def)
qed

lemma payload_loop_changed:
  assumes "changed_at protos p (Obj r A) (Obj r' A')" and "unrelated p F"
  shows "payload_loop protos (Obj r' A') (Obj rp F) (map fst F)
           = payload_loop protos (Obj r A) (Obj rp F) (map fst F)"
  using assms by (simp add: payload_loop_all unrelated_def get_changed)

lemma type_changed:
  assumes "changed_at protos p (Obj r A) (Obj r' A')" and "unrelated p F"
  shows "read_property protos (Obj r' A') ''type'' = read_property protos (Obj r A) ''type''"
proof -
  from assms(2) obtain f p' where p: "p = f # p'" and f: "f \<noteq> ''type''"
    by (cases p) (auto simp add: unrelated_def)
  with assms(1) have "map_of A' ''type'' = map_of A ''type''" by simp
  then show ?thesis by (simp add: read_property_def nullish_def member_of_def lookup_Obj)
qed

lemma specificTypeAndPayload_changed:
  assumes "changed_at protos p (Obj r A) (Obj r' A')" and "unrelated p F"
  shows "specificTypeAndPayload protos K (Obj rp F) (Obj r' A')
           = specificTypeAndPayload protos K (Obj rp F) (Obj r A)"
  using payload_loop_changed [OF assms, of rp] type_changed [OF assms]
  by (simp add: specificTypeAndPayload_def split: sum.splits)

lemma specificTypeAndPayload_iff:
  "specificTypeAndPayload protos K (Obj rp F) (Obj r A)
     = Inr ((\<exists>k \<in> set (case K of Arr rk ks \<Rightarrow> ks | _ \<Rightarrow> [K]).
               strict_eq k (member_of protos (Obj r A) ''type''))
            \<and> (\<forall>k \<in> fst ` set F.
                  strict_eq (get protos (Obj r A) k Undefined) (the (map_of F k))))"
proof -
  have "(\<forall>k \<in> fst ` set F.
           strict_eq (get protos (Obj r A) k Undefined) (get protos (Obj rp F) k Undefined))
      \<longleftrightarrow> (\<forall>k \<in> fst ` set F.
           strict_eq (get protos (Obj r A) k Undefined) (the (map_of F k)))"
    using get_own_key [of _ F protos rp Undefined] by (metis (no_types, lifting))
  then show ?thesis
    using indexOf_found [of "case K of Arr rk ks \<Rightarrow> ks | _ \<Rightarrow> [K]" "member_of protos (Obj r A) ''type''"]
    by (auto simp add: specificTypeAndPayload_def read_property_def nullish_def payload_loop_all
        Let_def)
qed

text \<open>
  C1. Let the field map be an object with entries \<open>F\<close> and the event an object with
  entries \<open>A\<close>, whatever the built-in prototypes hold. Built with a single kind \<open>s\<close>, the
  predicate returns true exactly when the event's type is \<open>s\<close> and every key of \<open>F\<close>,
  resolved on the event by \<^verbatim>\<open>get\<close> (dotted and bracketed keys included, inherited members
  included), is \<^verbatim>\<open>===\<close> to the value \<open>F\<close> gives the key; built with a list of kinds, exactly
  when the event's type is one of them and the same holds. (\<^verbatim>\<open>===\<close> is the exact equality
  of the language: primitives by value, objects and functions by identity, \<^verbatim>\<open>NaN\<close> equal to
  nothing.) A key whose path is missing on the event, own and inherited properties
  considered, resolves to \<^verbatim>\<open>undefined\<close>. Changing, adding or removing an event field that
  is neither the type nor on the path of a key of \<open>F\<close> leaves the result as it was. The
  predicate is a function of its arguments and returns a value: there is no state for it
  to change.
\<close>

theorem specificTypeAndPayload_correct:
  "specificTypeAndPayload protos (Str s) (Obj rp F) (Obj r A)
     = Inr (member_of protos (Obj r A) ''type'' = Str s
            \<and> (\<forall>k \<in> fst ` set F.
                  strict_eq (get protos (Obj r A) k Undefined) (the (map_of F k))))
   \<and> specificTypeAndPayload protos (Arr rk (map Str ss)) (Obj rp F) (Obj r A)
     = Inr ((\<exists>s' \<in> set ss. member_of protos (Obj r A) ''type'' = Str s')
            \<and> (\<forall>k \<in> fst ` set F.
                  strict_eq (get protos (Obj r A) k Undefined) (the (map_of F k))))
   \<and> (\<forall>k. resolve protos (Obj r A) (castPath protos k (Obj r A)) = None
          \<longrightarrow> get protos (Obj r A) k Undefined = Undefined)
   \<and> (\<forall>p r' A'. changed_at protos p (Obj r A) (Obj r' A') \<and> unrelated p F
          \<longrightarrow> specificTypeAndPayload protos K (Obj rp F) (Obj r' A')
              = specificTypeAndPayload protos K (Obj rp F) (Obj r A))"
proof (intro conjI allI impI)
  show "specificTypeAndPayload protos (Str s) (Obj rp F) (Obj r A)
     = Inr (member_of protos (Obj r A) ''type'' = Str s
            \<and> (\<forall>k \<in> fst ` set F.
                  strict_eq (get protos (Obj r A) k Undefined) (the (map_of F k))))"
    by (simp add: specificTypeAndPayload_iff)
next
  show "specificTypeAndPayload protos (Arr rk (map Str ss)) (Obj rp F) (Obj r A)
     = Inr ((\<exists>s' \<in> set ss. member_of protos (Obj r A) ''type'' = Str s')
            \<and> (\<forall>k \<in> fst ` set F.
                  strict_eq (get protos (Obj r A) k Undefined) (the (map_of F k))))"
    by (simp add: specificTypeAndPayload_iff)
next
  fix k
  assume "resolve protos (Obj r A) (castPath protos k (Obj r A)) = None"
  then show "get protos (Obj r A) k Undefined = Undefined"
    by (rule get_missing)
next
  fix p r' A'
  assume "changed_at protos p (Obj r A) (Obj r' A') \<and> unrelated p F"
  then have "changed_at protos p (Obj r A) (Obj r' A')" and "unrelated p F"
    by simp_all
  then show "specificTypeAndPayload protos K (Obj rp F) (Obj r' A')
               = specificTypeAndPayload protos K (Obj rp F) (Obj r A)"
    by (rule specificTypeAndPayload_changed)
qed

lemmas matcher_eval = specificTypeAndPayload_def read_member_def read_property_def nullish_def
  get_prop_def indexOf_def builtin_def
  get_def baseGet_def castPath_def isKey_def reIsPlainProp_def word_char_def stringToPath_def
  lookup_def member_of_def unrelated_def Let_def standard_protos_def object_prototype_def
  path_special_def bracket_def bracket_number_def number_body_def bracket_quoted_def
  empty_segment_def separator_follows_def is_digit_def deep_simple_def deep_quoted_def
  array_index_def scan.simps

theorem specificTypeAndPayload_correct_witness:
  "resolve standard_protos
      (Obj 1 [(''type'', Str ''A''),
              (''payload'', Obj 2 [(''items'', Arr 7 [Str ''00'']), (''other'', Num 1)])])
      (castPath standard_protos ''payload.gone''
         (Obj 1 [(''type'', Str ''A''),
                 (''payload'', Obj 2 [(''items'', Arr 7 [Str ''00'']), (''other'', Num 1)])])) = None
   \<and> get standard_protos
        (Obj 1 [(''type'', Str ''A''),
                (''payload'', Obj 2 [(''items'', Arr 7 [Str ''00'']), (''other'', Num 1)])])
        ''payload.gone'' Undefined = Undefined
   \<and> changed_at standard_protos [''payload'', ''other'']
        (Obj 1 [(''type'', Str ''A''),
                (''payload'', Obj 2 [(''items'', Arr 7 [Str ''00'']), (''other'', Num 1)])])
        (Obj 3 [(''type'', Str ''A''),
                (''payload'', Obj 4 [(''items'', Arr 7 [Str ''00'']), (''other'', Num 2)])])
   \<and> unrelated [''payload'', ''other''] [(''payload.items[0]'', Str ''00'')]
   \<and> specificTypeAndPayload standard_protos (Str ''A'')
        (Obj 5 [(''payload.items[0]'', Str ''00'')])
        (Obj 1 [(''type'', Str ''A''),
                (''payload'', Obj 2 [(''items'', Arr 7 [Str ''00'']), (''other'', Num 1)])])
       = Inr True
   \<and> specificTypeAndPayload standard_protos (Arr 9 (map Str [''A'', ''B'']))
        (Obj 5 [(''payload.items[0]'', Str ''00'')])
        (Obj 1 [(''type'', Str ''A''),
                (''payload'', Obj 2 [(''items'', Arr 7 [Str ''00'']), (''other'', Num 1)])])
       = Inr True
   \<and> specificTypeAndPayload standard_protos (Str ''A'')
        (Obj 5 [(''payload.items[0]'', Str ''00'')])
        (Obj 3 [(''type'', Str ''A''),
                (''payload'', Obj 4 [(''items'', Arr 7 [Str ''00'']), (''other'', Num 2)])])
       = Inr True
   \<and> specificTypeAndPayload standard_protos (Str ''A'')
        (Obj 5 [(''toString'', Undefined)])
        (Obj 1 [(''type'', Str ''A''),
                (''payload'', Obj 2 [(''items'', Arr 7 [Str ''00'']), (''other'', Num 1)])])
       = Inr False"
  using specificTypeAndPayload_correct
    [where protos = standard_protos and s = "''A''" and rp = 5
       and F = "[(''payload.items[0]'', Str ''00'')]" and r = 1
       and A = "[(''type'', Str ''A''),
                 (''payload'', Obj 2 [(''items'', Arr 7 [Str ''00'']), (''other'', Num 1)])]"
       and rk = 9 and ss = "[''A'', ''B'']" and K = "Str ''A''"]
  by (simp add: matcher_eval)

section \<open>Sagas: theorems\<close>

lemma feed_Nil: "feed reducer t [] = t"
  by (simp add: feed_def)

lemma feed_Cons: "feed reducer t (ev # evs) = feed reducer (deliver reducer t ev) evs"
  by (simp add: feed_def)

lemma feed_append: "feed reducer t (xs @ ys) = feed reducer (feed reducer t xs) ys"
  by (simp add: feed_def)

lemma deliver_nomatch:
  "find (\<lambda>(key, p). matches p ev) ls = None \<Longrightarrow>
   deliver reducer (Waiting ls k, c) ev = (Waiting ls k, c\<lparr>store := reducer (store c) ev\<rparr>)"
  by (simp add: deliver_def)

lemma feed_nomatch:
  "\<forall>ev \<in> set evs. find (\<lambda>(key, p). matches p ev) ls = None \<Longrightarrow>
   feed reducer (Waiting ls k, c) evs = (Waiting ls k, c\<lparr>store := foldl reducer (store c) evs\<rparr>)"
proof (induction evs arbitrary: c)
  case Nil
  then show ?case by (simp add: feed_Nil)
next
  case (Cons ev evs)
  then show ?case by (simp add: feed_Cons deliver_nomatch)
qed

lemma feed_Done:
  "feed reducer (Done v, c) evs = (Done v, c\<lparr>store := foldl reducer (store c) evs\<rparr>)"
  by (induction evs arbitrary: c) (simp_all add: feed_Nil feed_Cons deliver_def)

lemma split_dots_nonempty: "split_dots k \<noteq> []"
  by (cases k) (auto split: list.splits)

lemma split_dots_deep: "CHR ''.'' \<in> set k \<Longrightarrow> \<exists>seg k' ks. split_dots k = seg # k' # ks"
proof (induction k)
  case Nil
  then show ?case by simp
next
  case (Cons c cs)
  show ?case
  proof (cases "c = CHR ''.''")
    case True
    then show ?thesis using split_dots_nonempty [of cs] by (cases "split_dots cs") auto
  next
    case False
    with Cons.prems have "CHR ''.'' \<in> set cs" by simp
    from Cons.IH [OF this] obtain seg k' ks where "split_dots cs = seg # k' # ks" by blast
    with False show ?thesis by simp
  qed
qed

lemma split_dots_run:
  "c \<noteq> CHR ''.'' \<Longrightarrow> bracket_free (c # cs) \<Longrightarrow>
   split_dots (c # cs)
     = (c # takeWhile (\<lambda>x. \<not> path_special x) cs)
         # (case dropWhile (\<lambda>x. \<not> path_special x) cs of [] \<Rightarrow> [] | d # ds \<Rightarrow> split_dots ds)"
proof (induction cs arbitrary: c)
  case Nil
  then show ?case by simp
next
  case (Cons d ds)
  show ?case
  proof (cases "d = CHR ''.''")
    case True
    with Cons.prems(1) show ?thesis
      by (simp add: path_special_def)
  next
    case False
    from Cons.prems have bf: "bracket_free (d # ds)" by (simp add: bracket_free_def)
    from False bf have "\<not> path_special d" by (auto simp add: path_special_def bracket_free_def)
    with Cons.IH [OF False bf] Cons.prems(1) show ?thesis by simp
  qed
qed

lemma empty_segment_dot:
  "bracket_free cs \<Longrightarrow> empty_segment (CHR ''.'' # cs) = (cs = [] \<or> hd cs = CHR ''.'')"
  by (cases cs) (auto simp add: empty_segment_def separator_follows_def bracket_free_def)

lemma scan_dot:
  "scan (CHR ''.'' # cs) = (if empty_segment (CHR ''.'' # cs) then [] # scan cs else scan cs)"
  by (simp add: scan.simps path_special_def)

lemma scan_run:
  "\<not> path_special c \<Longrightarrow>
   scan (c # cs) = (c # takeWhile (\<lambda>x. \<not> path_special x) cs)
                     # scan (dropWhile (\<lambda>x. \<not> path_special x) cs)"
  by (simp add: scan.simps)

lemma scan_dots:
  "bracket_free t \<Longrightarrow>
   scan t = (case t of
               [] \<Rightarrow> []
             | c # cs \<Rightarrow> if c = CHR ''.'' then split_dots cs else split_dots t)"
proof (induction t rule: length_induct)
  case (1 t)
  show ?case
  proof (cases t)
    case Nil
    then show ?thesis by (simp add: scan.simps)
  next
    case (Cons c cs)
    from "1.prems" Cons have bfc: "bracket_free cs" and cb: "c \<noteq> CHR ''['' \<and> c \<noteq> CHR '']''"
      by (auto simp add: bracket_free_def)
    show ?thesis
    proof (cases "c = CHR ''.''")
      case True
      have ih: "scan cs = (case cs of [] \<Rightarrow> []
                            | d # ds \<Rightarrow> if d = CHR ''.'' then split_dots ds else split_dots cs)"
        using "1.IH" bfc Cons by simp
      show ?thesis
      proof (cases cs)
        case Nil
        with True Cons show ?thesis
          by (simp add: scan_dot empty_segment_dot bracket_free_def scan.simps(1))
      next
        case inner: (Cons d ds)
        have e: "empty_segment (CHR ''.'' # cs) = (d = CHR ''.'')"
          using empty_segment_dot [OF bfc] inner by simp
        have s1: "scan t = (if d = CHR ''.'' then [] # scan cs else scan cs)"
          unfolding Cons True scan_dot e ..
        have s2: "scan cs = (if d = CHR ''.'' then split_dots ds else split_dots cs)"
          using ih inner by simp
        show ?thesis
        proof (cases "d = CHR ''.''")
          case dd: True
          have "scan t = [] # scan cs" using s1 dd by simp
          also have "\<dots> = [] # split_dots ds" using s2 dd by simp
          also have "\<dots> = split_dots cs" using inner dd by simp
          finally show ?thesis using Cons True by simp
        next
          case dd: False
          have "scan t = scan cs" using s1 dd by simp
          also have "\<dots> = split_dots cs" using s2 dd by simp
          finally show ?thesis using Cons True by simp
        qed
      qed
    next
      case False
      with cb have ns: "\<not> path_special c" by (simp add: path_special_def)
      let ?rest = "dropWhile (\<lambda>x. \<not> path_special x) cs"
      have len: "length ?rest < length t"
        using length_dropWhile_le [of "\<lambda>x. \<not> path_special x" cs] Cons by simp
      have bfr: "bracket_free ?rest"
        using bfc set_dropWhileD [of _ "\<lambda>x. \<not> path_special x" cs]
        by (auto simp add: bracket_free_def)
      have ih: "scan ?rest = (case ?rest of [] \<Rightarrow> []
                   | d # ds \<Rightarrow> if d = CHR ''.'' then split_dots ds else split_dots ?rest)"
        using "1.IH" len bfr by blast
      have "scan ?rest = (case ?rest of [] \<Rightarrow> [] | d # ds \<Rightarrow> split_dots ds)"
      proof (cases ?rest)
        case Nil
        show ?thesis using ih unfolding Nil by simp
      next
        case inner: (Cons d ds)
        have "path_special d" using hd_dropWhile [of "\<lambda>x. \<not> path_special x" cs] inner by simp
        moreover from bfr inner have "d \<noteq> CHR ''['' \<and> d \<noteq> CHR '']''"
          by (auto simp add: bracket_free_def)
        ultimately have "d = CHR ''.''" by (simp add: path_special_def)
        with ih inner show ?thesis by simp
      qed
      moreover from "1.prems" Cons have "bracket_free (c # cs)" by simp
      ultimately show ?thesis
        using ns Cons split_dots_run [OF False, of cs] False by (simp add: scan_run)
    qed
  qed
qed

lemma stringToPath_dots: "bracket_free k \<Longrightarrow> k \<noteq> [] \<Longrightarrow> stringToPath k = split_dots k"
  by (cases k) (simp_all add: stringToPath_def scan_dots)

lemma reIsDeepProp_dots: "bracket_free k \<Longrightarrow> reIsDeepProp k = (CHR ''.'' \<in> set k)"
  by (induction k) (auto simp add: bracket_free_def)

lemma own_name_object:
  "own_name protos flag \<Longrightarrow> seg \<in> set (flag # split_dots flag) \<Longrightarrow>
   protos KObject seg = None \<and> protos KBoolean seg = None"
  by (auto simp add: own_name_def)

lemma get_flat:
  assumes flat: "\<forall>v \<in> snd ` set T. \<exists>b. v = Bool b" and own: "own_name protos flag"
  shows "get protos (Obj r T) flag d = (case map_of T flag of Some v \<Rightarrow> v | None \<Rightarrow> d)"
proof (cases "map_of T flag")
  case (Some v)
  then have "(flag, v) \<in> set T" by (rule map_of_SomeD)
  with flat obtain b where "v = Bool b" by force
  moreover from Some have "flag \<in> fst ` set T" by (metis domI dom_map_of_conv_image_fst)
  ultimately show ?thesis using Some get_own_key [of flag T protos r d] by simp
next
  case None
  from own have bf: "bracket_free flag" by (simp add: own_name_def)
  from own_name_object [OF own, of flag] have inh: "protos KObject flag = None" by simp
  with None have absent: "lookup protos (Obj r T) flag = None" by (simp add: lookup_Obj)
  show ?thesis
  proof (cases "isKey protos flag (Obj r T)")
    case True
    then show ?thesis using None absent
      by (simp add: get_def baseGet_def castPath_def nullish_def member_of_def)
  next
    case False
    then have dot: "CHR ''.'' \<in> set flag" and ne: "flag \<noteq> []"
      using reIsDeepProp_dots [OF bf] by (auto simp add: isKey_def reIsPlainProp_def)
    from split_dots_deep [OF dot] obtain seg k' ks where sp: "split_dots flag = seg # k' # ks"
      by blast
    from own_name_object [OF own, of seg] sp have seg: "protos KObject seg = None" by simp
    from own_name_object [OF own, of k'] sp have k': "protos KBoolean k' = None" by simp
    have "member_of protos (Obj r T) seg = Undefined
          \<or> (\<exists>b. member_of protos (Obj r T) seg = Bool b)"
    proof (cases "map_of T seg")
      case None
      with seg show ?thesis by (simp add: member_of_def lookup_Obj)
    next
      case (Some v)
      then have "(seg, v) \<in> set T" by (rule map_of_SomeD)
      with flat obtain b where "v = Bool b" by force
      with Some show ?thesis by (simp add: member_of_def lookup_Obj)
    qed
    moreover have "member_of protos (Bool b) k' = Undefined" for b
      using k' by (simp add: member_of_def lookup_def)
    ultimately have "(case baseGet_loop protos (member_of protos (Obj r T) seg) (k' # ks) of
                        Some x \<Rightarrow> x | None \<Rightarrow> Undefined) = Undefined"
      using baseGet_loop_undefined [of protos ks] by (auto simp add: nullish_def)
    with False sp ne bf show ?thesis using None
      by (simp add: get_def baseGet_def castPath_def stringToPath_dots nullish_def)
  qed
qed

lemma default_flat:
  assumes flat: "\<forall>v \<in> snd ` set Ds. \<exists>b. v = Bool b" and own: "own_name protos flag"
  shows "logical_or (member_of protos (Obj 0 Ds) flag) (Bool False)
           = (case map_of Ds flag of Some v \<Rightarrow> v | None \<Rightarrow> Bool False)"
proof (cases "map_of Ds flag")
  case None
  with own_name_object [OF own, of flag] show ?thesis
    by (simp add: logical_or_def member_of_def lookup_Obj)
next
  case (Some v)
  then have "(flag, v) \<in> set Ds" by (rule map_of_SomeD)
  with flat obtain b where "v = Bool b" by force
  with Some show ?thesis by (simp add: logical_or_def member_of_def lookup_Obj)
qed

lemma checkForFeatureFlag_ready:
  "truthy (entry (store c) ''featureTogglesInitialized'') \<Longrightarrow>
   advance reducer (checkForFeatureFlag protos I D flag) c
     = (Done (get protos (entry (store c) ''featureToggles'') flag
                (logical_or (member_of protos (Obj 0 D) flag) (Bool False))), c)"
  by (simp add: checkForFeatureFlag_def waitForFeatureToggleInitialization_def)

lemma checkForFeatureFlag_suspends:
  assumes "\<not> truthy (entry (store c) ''featureTogglesInitialized'')"
  shows "\<exists>k. advance reducer (checkForFeatureFlag protos I D flag) c
                = (Waiting [(None, PString I)] k, c)
           \<and> (\<forall>v c'. advance reducer (k v) c'
                 = (Done (get protos (entry (store c') ''featureToggles'') flag
                            (logical_or (member_of protos (Obj 0 D) flag) (Bool False))), c'))"
  using assms by (simp add: checkForFeatureFlag_def waitForFeatureToggleInitialization_def)

text \<open>
  C9, as the code has it. If the readiness flag of the state is truthy when
  \<^verbatim>\<open>checkForFeatureFlag\<close> starts, the routine ends at once, without suspending and without
  emitting anything, with the value read from the toggle set of that state. If it is
  falsy, the routine suspends on a take of \<^verbatim>\<open>FEATURE_TOGGLE_INITIALIZED\<close>: events the take
  does not accept leave it suspended, and the first event it accepts resumes it, whereupon
  it returns the value read from the toggle set the state has by then; the take accepts
  the events of that type (the name of the type not being the wildcard \<^verbatim>\<open>*\<close>). The value
  read, for a toggle set and defaults whose values are booleans and for a flag in plain
  dot notation that names no inherited member (neither the flag nor a segment of it): the
  toggle set's value for the flag if present, otherwise the default for the flag if
  present, otherwise \<^verbatim>\<open>false\<close>.
\<close>

theorem checkForFeatureFlag_spec:
  "(truthy (entry state ''featureTogglesInitialized'') \<longrightarrow>
      advance reducer (checkForFeatureFlag protos I D flag) (start state)
        = (Done (get protos (entry state ''featureToggles'') flag
                   (logical_or (member_of protos (Obj 0 D) flag) (Bool False))), start state))
   \<and> (\<not> truthy (entry state ''featureTogglesInitialized'') \<longrightarrow>
        (\<forall>evs. (\<forall>ev \<in> set evs. \<not> matches (PString I) ev) \<longrightarrow>
           listeners (fst (feed reducer
               (advance reducer (checkForFeatureFlag protos I D flag) (start state)) evs))
             = [(None, PString I)]
           \<and> resumed (snd (feed reducer
               (advance reducer (checkForFeatureFlag protos I D flag) (start state)) evs)) = 0)
      \<and> (\<forall>evs ev. (\<forall>ev' \<in> set evs. \<not> matches (PString I) ev') \<and> matches (PString I) ev \<longrightarrow>
           fst (feed reducer
               (advance reducer (checkForFeatureFlag protos I D flag) (start state)) (evs @ [ev]))
             = Done (get protos (entry (foldl reducer state (evs @ [ev])) ''featureToggles'') flag
                       (logical_or (member_of protos (Obj 0 D) flag) (Bool False)))))
   \<and> (own_name protos flag \<and> (\<forall>v \<in> snd ` set T. \<exists>b. v = Bool b)
        \<and> (\<forall>v \<in> snd ` set Ds. \<exists>b. v = Bool b) \<longrightarrow>
        get protos (Obj rt T) flag (logical_or (member_of protos (Obj 0 Ds) flag) (Bool False))
          = flag_value_spec T Ds flag)
   \<and> (\<forall>ev. I \<noteq> ''*'' \<longrightarrow> matches (PString I) ev = (get_prop ev ''type'' = Str I))"
proof (intro conjI impI allI)
  assume "truthy (entry state ''featureTogglesInitialized'')"
  then show "advance reducer (checkForFeatureFlag protos I D flag) (start state)
        = (Done (get protos (entry state ''featureToggles'') flag
                   (logical_or (member_of protos (Obj 0 D) flag) (Bool False))), start state)"
    using checkForFeatureFlag_ready [of "start state" reducer protos I D flag]
    by (simp add: start_def)
next
  fix evs
  assume notready: "\<not> truthy (entry state ''featureTogglesInitialized'')"
    and quiet: "\<forall>ev \<in> set evs. \<not> matches (PString I) ev"
  from notready obtain k where
    k: "advance reducer (checkForFeatureFlag protos I D flag) (start state)
          = (Waiting [(None, PString I)] k, start state)"
    using checkForFeatureFlag_suspends [of "start state" reducer protos I D flag]
    by (auto simp add: start_def)
  from quiet have "\<forall>ev \<in> set evs. find (\<lambda>(key, p). matches p ev) [(None, PString I)] = None"
    by simp
  from feed_nomatch [OF this, of reducer k "start state"]
  have fed: "feed reducer (Waiting [(None, PString I)] k, start state) evs
          = (Waiting [(None, PString I)] k,
             (start state)\<lparr>store := foldl reducer (store (start state)) evs\<rparr>)" .
  show "listeners (fst (feed reducer
               (advance reducer (checkForFeatureFlag protos I D flag) (start state)) evs))
             = [(None, PString I)]"
    by (simp add: k fed listeners_def)
  show "resumed (snd (feed reducer
               (advance reducer (checkForFeatureFlag protos I D flag) (start state)) evs)) = 0"
    unfolding k fed by (simp add: start_def)
next
  fix evs ev
  assume notready: "\<not> truthy (entry state ''featureTogglesInitialized'')"
    and last: "(\<forall>ev' \<in> set evs. \<not> matches (PString I) ev') \<and> matches (PString I) ev"
  from notready obtain k where
    k: "advance reducer (checkForFeatureFlag protos I D flag) (start state)
          = (Waiting [(None, PString I)] k, start state)"
    and go: "\<And>v c'. advance reducer (k v) c'
                 = (Done (get protos (entry (store c') ''featureToggles'') flag
                            (logical_or (member_of protos (Obj 0 D) flag) (Bool False))), c')"
    using checkForFeatureFlag_suspends [of "start state" reducer protos I D flag]
    by (auto simp add: start_def)
  from last have "\<forall>ev \<in> set evs. find (\<lambda>(key, p). matches p ev) [(None, PString I)] = None"
    by simp
  from feed_nomatch [OF this, of reducer k "start state"]
  have fed: "feed reducer (Waiting [(None, PString I)] k, start state) evs
          = (Waiting [(None, PString I)] k,
             (start state)\<lparr>store := foldl reducer (store (start state)) evs\<rparr>)" .
  show "fst (feed reducer
               (advance reducer (checkForFeatureFlag protos I D flag) (start state)) (evs @ [ev]))
             = Done (get protos (entry (foldl reducer state (evs @ [ev])) ''featureToggles'') flag
                       (logical_or (member_of protos (Obj 0 D) flag) (Bool False)))"
    unfolding k feed_append fed using last
    by (simp add: feed_Cons feed_Nil deliver_def go start_def)
next
  assume "own_name protos flag \<and> (\<forall>v \<in> snd ` set T. \<exists>b. v = Bool b)
        \<and> (\<forall>v \<in> snd ` set Ds. \<exists>b. v = Bool b)"
  then show "get protos (Obj rt T) flag
               (logical_or (member_of protos (Obj 0 Ds) flag) (Bool False))
          = flag_value_spec T Ds flag"
    by (simp add: get_flat default_flat flag_value_spec_def)
next
  fix ev
  assume "I \<noteq> ''*''"
  then show "matches (PString I) ev = (get_prop ev ''type'' = Str I)"
    by simp
qed

lemmas saga_eval = checkForFeatureFlag_def waitForFeatureToggleInitialization_def start_def
  feed_def deliver_def listeners_def entry_def logical_or_def flag_value_spec_def own_name_def
  bracket_free_def

theorem checkForFeatureFlag_spec_witness:
  "\<not> truthy (entry [(''featureTogglesInitialized'', Bool False), (''featureToggles'', Obj 6 [])]
        ''featureTogglesInitialized'')
   \<and> \<not> matches (PString ''FEATURE_TOGGLE_INITIALIZED'') (Obj 1 [(''type'', Str ''OTHER'')])
   \<and> matches (PString ''FEATURE_TOGGLE_INITIALIZED'')
        (Obj 2 [(''type'', Str ''FEATURE_TOGGLE_INITIALIZED'')])
   \<and> fst (feed (\<lambda>st a. if get_prop a ''type'' = Str ''FEATURE_TOGGLE_INITIALIZED''
                        then [(''featureTogglesInitialized'', Bool True),
                              (''featureToggles'', Obj 7 [(''wallet.rollout'', Bool True)])]
                        else st)
           (advance (\<lambda>st a. if get_prop a ''type'' = Str ''FEATURE_TOGGLE_INITIALIZED''
                        then [(''featureTogglesInitialized'', Bool True),
                              (''featureToggles'', Obj 7 [(''wallet.rollout'', Bool True)])]
                        else st)
              (checkForFeatureFlag standard_protos ''FEATURE_TOGGLE_INITIALIZED''
                 [(''push.rollout'', Bool True)] ''wallet.rollout'')
              (start [(''featureTogglesInitialized'', Bool False), (''featureToggles'', Obj 6 [])]))
           [Obj 1 [(''type'', Str ''OTHER'')], Obj 2 [(''type'', Str ''FEATURE_TOGGLE_INITIALIZED'')]])
       = Done (Bool True)
   \<and> truthy (entry [(''featureTogglesInitialized'', Bool True), (''featureToggles'', Obj 6 [])]
        ''featureTogglesInitialized'')
   \<and> advance (\<lambda>st a. st)
        (checkForFeatureFlag standard_protos ''FEATURE_TOGGLE_INITIALIZED''
           [(''push.rollout'', Bool True)] ''push.rollout'')
        (start [(''featureTogglesInitialized'', Bool True), (''featureToggles'', Obj 6 [])])
       = (Done (Bool True),
          start [(''featureTogglesInitialized'', Bool True), (''featureToggles'', Obj 6 [])])
   \<and> own_name standard_protos ''other.rollout''
   \<and> get standard_protos (Obj 6 [(''wallet.rollout'', Bool True)]) ''other.rollout''
        (logical_or (member_of standard_protos (Obj 0 [(''push.rollout'', Bool True)])
                       ''other.rollout'') (Bool False))
       = Bool False
   \<and> flag_value_spec [(''wallet.rollout'', Bool True)] [(''push.rollout'', Bool True)]
        ''other.rollout'' = Bool False"
  using checkForFeatureFlag_spec
    [where state = "[(''featureTogglesInitialized'', Bool False), (''featureToggles'', Obj 6 [])]"
       and reducer = "\<lambda>st a. if get_prop a ''type'' = Str ''FEATURE_TOGGLE_INITIALIZED''
                        then [(''featureTogglesInitialized'', Bool True),
                              (''featureToggles'', Obj 7 [(''wallet.rollout'', Bool True)])]
                        else st"
       and protos = standard_protos
       and I = "''FEATURE_TOGGLE_INITIALIZED''" and D = "[(''push.rollout'', Bool True)]"
       and flag = "''wallet.rollout''" and T = "[(''wallet.rollout'', Bool True)]"
       and Ds = "[(''push.rollout'', Bool True)]" and rt = 6]
    checkForFeatureFlag_spec
    [where state = "[(''featureTogglesInitialized'', Bool True), (''featureToggles'', Obj 6 [])]"
       and reducer = "\<lambda>st a. st" and protos = standard_protos
       and I = "''FEATURE_TOGGLE_INITIALIZED''" and D = "[(''push.rollout'', Bool True)]"
       and flag = "''push.rollout''" and T = "[(''wallet.rollout'', Bool True)]"
       and Ds = "[(''push.rollout'', Bool True)]" and rt = 6]
    checkForFeatureFlag_spec
    [where state = "[]" and reducer = "\<lambda>st a. st" and protos = standard_protos
       and I = "''FEATURE_TOGGLE_INITIALIZED''" and D = "[(''push.rollout'', Bool True)]"
       and flag = "''other.rollout''" and T = "[(''wallet.rollout'', Bool True)]"
       and Ds = "[(''push.rollout'', Bool True)]" and rt = 6]
  by (simp add: saga_eval matcher_eval)

text \<open>
  C9 as stated fails for a flag that names an inherited member. With the readiness flag
  set, an empty toggle set and no defaults, \<^verbatim>\<open>checkForFeatureFlag('toString')\<close> returns the
  function every object inherits under that name, where the claim, the flag being in
  neither map, says \<^verbatim>\<open>false\<close>.
\<close>

theorem checkForFeatureFlag_counterexample:
  "fst (advance (\<lambda>st a. st)
          (checkForFeatureFlag standard_protos ''FEATURE_TOGGLE_INITIALIZED'' [] ''toString'')
          (start [(''featureTogglesInitialized'', Bool True), (''featureToggles'', Obj 6 [])]))
     = Done (Fun 6 [(''length'', Num 0), (''name'', Str ''toString'')])
   \<and> flag_value_spec [] [] ''toString'' = Bool False"
  by (simp add: saga_eval matcher_eval)

lemmas run_eval = run_def feed_def deliver_def start_def listeners_def dispatchAndWait_def
  errorHandler_def read_member_def nullish_def get_prop_def

lemma dispatchAndWait_advance:
  "advance reducer (dispatchAndWait action s f) c
     = (Waiting [(Some ''success'', s), (Some ''falure'', f)] (\<lambda>r. Return r),
        c\<lparr>store := reducer (store c) action, emitted := emitted c @ [action]\<rparr>)"
  by (simp add: dispatchAndWait_def)

lemma dispatchAndWait_quiet:
  assumes "\<forall>ev \<in> set evs. \<not> matches s ev \<and> \<not> matches f ev"
  shows "run reducer (dispatchAndWait action s f) state evs
           = (Waiting [(Some ''success'', s), (Some ''falure'', f)] (\<lambda>r. Return r),
              \<lparr>store = foldl reducer (reducer state action) evs, emitted = [action],
               console = [], resumed = 0\<rparr>)"
proof -
  from assms have "\<forall>ev \<in> set evs.
      find (\<lambda>(key, p). matches p ev) [(Some ''success'', s), (Some ''falure'', f)] = None"
    by simp
  then have "feed reducer (Waiting [(Some ''success'', s), (Some ''falure'', f)] k, c) evs
          = (Waiting [(Some ''success'', s), (Some ''falure'', f)] k,
             c\<lparr>store := foldl reducer (store c) evs\<rparr>)" for k :: "jsval \<Rightarrow> jsval saga" and c
    by (rule feed_nomatch)
  then show ?thesis
    by (simp add: run_def dispatchAndWait_advance start_def)
qed

lemma dispatchAndWait_resolved:
  assumes pre: "\<forall>e \<in> set pre. \<not> matches s e \<and> \<not> matches f e"
    and ev: "matches s ev \<or> matches f ev"
  shows "run reducer (dispatchAndWait action s f) state (pre @ ev # post)
           = (Done (Obj 0 [(if matches s ev then ''success'' else ''falure'', ev)]),
              \<lparr>store = foldl reducer (reducer state action) (pre @ ev # post), emitted = [action],
               console = [], resumed = 1\<rparr>)"
proof -
  have "run reducer (dispatchAndWait action s f) state (pre @ ev # post)
          = feed reducer (deliver reducer (run reducer (dispatchAndWait action s f) state pre) ev) post"
    by (simp add: run_def feed_append feed_Cons)
  also have "\<dots> = feed reducer
       (Done (Obj 0 [(if matches s ev then ''success'' else ''falure'', ev)]),
        \<lparr>store = foldl reducer (reducer state action) (pre @ [ev]), emitted = [action],
         console = [], resumed = 1\<rparr>) post"
    using ev by (auto simp add: dispatchAndWait_quiet [OF pre] deliver_def)
  finally show ?thesis by (simp add: feed_Done)
qed

lemma dispatchAndWait_cases:
  "(\<forall>ev \<in> set evs. \<not> matches s ev \<and> \<not> matches f ev)
   \<or> (\<exists>pre ev post. evs = pre @ ev # post \<and> (\<forall>e \<in> set pre. \<not> matches s e \<and> \<not> matches f e)
         \<and> (matches s ev \<or> matches f ev))"
proof (cases "\<exists>ev \<in> set evs. matches s ev \<or> matches f ev")
  case True
  from split_list_first_prop [OF this] show ?thesis by blast
next
  case False
  then show ?thesis by blast
qed

text \<open>
  C2. \<^verbatim>\<open>dispatchAndWait\<close> first emits the command and then suspends on a race of two
  takes, \<^verbatim>\<open>success\<close> on the success pattern and \<^verbatim>\<open>falure\<close> (as the source spells the key) on
  the failure pattern. Whatever events follow, it emits nothing else and is resumed at most
  once. While no event matches either pattern it stays suspended on both listeners. At
  the first event that matches one of them it returns an object holding that event under
  the key of the side that matched (\<^verbatim>\<open>success\<close> when both do), it has been resumed once, and
  no listener is left; this stays so whatever events come after, the event of the other
  side included.
\<close>

theorem dispatchAndWait_race:
  "emitted (snd (run reducer (dispatchAndWait action s f) state [])) = [action]
   \<and> listeners (fst (run reducer (dispatchAndWait action s f) state []))
       = [(Some ''success'', s), (Some ''falure'', f)]
   \<and> (\<forall>evs. emitted (snd (run reducer (dispatchAndWait action s f) state evs)) = [action]
          \<and> resumed (snd (run reducer (dispatchAndWait action s f) state evs)) \<le> 1)
   \<and> (\<forall>evs. (\<forall>ev \<in> set evs. \<not> matches s ev \<and> \<not> matches f ev) \<longrightarrow>
          listeners (fst (run reducer (dispatchAndWait action s f) state evs))
            = [(Some ''success'', s), (Some ''falure'', f)]
          \<and> resumed (snd (run reducer (dispatchAndWait action s f) state evs)) = 0)
   \<and> (\<forall>pre ev post.
          (\<forall>e \<in> set pre. \<not> matches s e \<and> \<not> matches f e) \<and> (matches s ev \<or> matches f ev) \<longrightarrow>
          fst (run reducer (dispatchAndWait action s f) state (pre @ ev # post))
            = Done (Obj 0 [(if matches s ev then ''success'' else ''falure'', ev)])
          \<and> resumed (snd (run reducer (dispatchAndWait action s f) state (pre @ ev # post))) = 1
          \<and> listeners (fst (run reducer (dispatchAndWait action s f) state (pre @ ev # post))) = [])"
proof (intro conjI allI impI)
  show "emitted (snd (run reducer (dispatchAndWait action s f) state [])) = [action]"
    by (simp add: dispatchAndWait_quiet)
  show "listeners (fst (run reducer (dispatchAndWait action s f) state []))
       = [(Some ''success'', s), (Some ''falure'', f)]"
    by (simp add: dispatchAndWait_quiet listeners_def)
next
  fix evs
  show "emitted (snd (run reducer (dispatchAndWait action s f) state evs)) = [action]"
    using dispatchAndWait_cases [of evs s f]
    by (auto simp add: dispatchAndWait_quiet dispatchAndWait_resolved)
  show "resumed (snd (run reducer (dispatchAndWait action s f) state evs)) \<le> 1"
    using dispatchAndWait_cases [of evs s f]
    by (auto simp add: dispatchAndWait_quiet dispatchAndWait_resolved)
next
  fix evs
  assume q: "\<forall>ev \<in> set evs. \<not> matches s ev \<and> \<not> matches f ev"
  show "listeners (fst (run reducer (dispatchAndWait action s f) state evs))
            = [(Some ''success'', s), (Some ''falure'', f)]"
    by (simp add: dispatchAndWait_quiet [OF q] listeners_def)
  show "resumed (snd (run reducer (dispatchAndWait action s f) state evs)) = 0"
    by (simp add: dispatchAndWait_quiet [OF q])
next
  fix pre ev post
  assume h: "(\<forall>e \<in> set pre. \<not> matches s e \<and> \<not> matches f e) \<and> (matches s ev \<or> matches f ev)"
  then have pre: "\<forall>e \<in> set pre. \<not> matches s e \<and> \<not> matches f e" and ev: "matches s ev \<or> matches f ev"
    by simp_all
  show "fst (run reducer (dispatchAndWait action s f) state (pre @ ev # post))
            = Done (Obj 0 [(if matches s ev then ''success'' else ''falure'', ev)])"
    by (simp add: dispatchAndWait_resolved [OF pre ev])
  show "resumed (snd (run reducer (dispatchAndWait action s f) state (pre @ ev # post))) = 1"
    by (simp add: dispatchAndWait_resolved [OF pre ev])
  show "listeners (fst (run reducer (dispatchAndWait action s f) state (pre @ ev # post))) = []"
    by (simp add: dispatchAndWait_resolved [OF pre ev] listeners_def)
qed

theorem dispatchAndWait_race_witness:
  "(\<not> matches (PString ''SEND_TX_SUCCESS'') (Obj 2 [(''type'', Str ''OTHER'')])
      \<and> \<not> matches (PString ''SEND_TX_FAILED'') (Obj 2 [(''type'', Str ''OTHER'')]))
   \<and> (matches (PString ''SEND_TX_SUCCESS'') (Obj 3 [(''type'', Str ''SEND_TX_FAILED'')])
      \<or> matches (PString ''SEND_TX_FAILED'') (Obj 3 [(''type'', Str ''SEND_TX_FAILED'')]))
   \<and> fst (run (\<lambda>st a. st)
        (dispatchAndWait (Obj 1 [(''type'', Str ''SEND_TX'')])
           (PString ''SEND_TX_SUCCESS'') (PString ''SEND_TX_FAILED''))
        [] ([Obj 2 [(''type'', Str ''OTHER'')]] @ Obj 3 [(''type'', Str ''SEND_TX_FAILED'')]
              # [Obj 4 [(''type'', Str ''SEND_TX_SUCCESS'')]]))
       = Done (Obj 0 [(''falure'', Obj 3 [(''type'', Str ''SEND_TX_FAILED'')])])
   \<and> resumed (snd (run (\<lambda>st a. st)
        (dispatchAndWait (Obj 1 [(''type'', Str ''SEND_TX'')])
           (PString ''SEND_TX_SUCCESS'') (PString ''SEND_TX_FAILED''))
        [] ([Obj 2 [(''type'', Str ''OTHER'')]] @ Obj 3 [(''type'', Str ''SEND_TX_FAILED'')]
              # [Obj 4 [(''type'', Str ''SEND_TX_SUCCESS'')]]))) = 1
   \<and> emitted (snd (run (\<lambda>st a. st)
        (dispatchAndWait (Obj 1 [(''type'', Str ''SEND_TX'')])
           (PString ''SEND_TX_SUCCESS'') (PString ''SEND_TX_FAILED''))
        [] ([Obj 2 [(''type'', Str ''OTHER'')]] @ Obj 3 [(''type'', Str ''SEND_TX_FAILED'')]
              # [Obj 4 [(''type'', Str ''SEND_TX_SUCCESS'')]]))) = [Obj 1 [(''type'', Str ''SEND_TX'')]]"
  using dispatchAndWait_race
    [where reducer = "\<lambda>st a. st" and action = "Obj 1 [(''type'', Str ''SEND_TX'')]"
       and s = "PString ''SEND_TX_SUCCESS''" and f = "PString ''SEND_TX_FAILED''" and state = "[]"]
  by (simp add: run_eval)

lemma errorHandler_supervised:
  "\<not> nullish action \<Longrightarrow>
   errorHandler saga failureAction action
     = supervised (get_prop action ''type'') failureAction (saga action)"
  by (simp add: errorHandler_def supervised_def handler_def read_member_def)

lemma advance_shadows:
  "shadows ty fa (advance reducer m c) (advance reducer (supervised ty fa m) c)"
  by (induction m arbitrary: c)
     (simp_all add: shadows_def supervised_def handler_def)

lemma deliver_shadows:
  assumes "shadows ty fa tR tW"
  shows "shadows ty fa (deliver reducer tR ev) (deliver reducer tW ev)"
proof (cases "fst tR")
  case (Waiting ls k)
  with assms have w: "fst tW = Waiting ls (\<lambda>v. supervised ty fa (k v))" and c: "snd tW = snd tR"
    by (simp_all add: shadows_def)
  show ?thesis
  proof (cases "find (\<lambda>(key, p). matches p ev) ls")
    case None
    with Waiting w c show ?thesis by (simp add: deliver_def shadows_def)
  next
    case (Some l)
    obtain key p where l: "l = (key, p)" by (cases l)
    show ?thesis
    proof (cases key)
      case None
      with Waiting w c Some l show ?thesis by (simp add: deliver_def advance_shadows)
    next
      case (Some tag)
      with Waiting w c \<open>find (\<lambda>(key, p). matches p ev) ls = Some l\<close> l show ?thesis
        by (simp add: deliver_def advance_shadows)
    qed
  qed
next
  case (Done v)
  with assms show ?thesis by (simp add: deliver_def shadows_def)
next
  case (Failed e)
  with assms show ?thesis by (simp add: deliver_def shadows_def)
qed

lemma feed_shadows:
  "shadows ty fa tR tW \<Longrightarrow>
   shadows ty fa (feed reducer tR evs) (feed reducer tW evs)"
  by (induction evs arbitrary: tR tW) (simp_all add: feed_Nil feed_Cons deliver_shadows)

lemma run_shadows:
  "shadows ty fa (run reducer m state evs) (run reducer (supervised ty fa m) state evs)"
  by (simp add: run_def feed_shadows advance_shadows)

text \<open>
  C4. Take a routine, a failure action, and an invocation of the wrapper on an action
  (a value other than \<^verbatim>\<open>null\<close> and \<^verbatim>\<open>undefined\<close>, whose \<^verbatim>\<open>type\<close> the diagnostic reads). Compare,
  on the same state and the same events, the routine run alone with the wrapper around it.
  The wrapper never ends with a fault. Where the routine has failed, at its start or after
  any number of suspensions, the wrapper has returned and has emitted what the routine
  emitted followed by the failure action, once, and logged one diagnostic. Where the
  routine has returned, the wrapper has returned and emitted exactly what the routine
  emitted. Where the routine is suspended, so is the wrapper, on the same listeners.
  (Routines are finite trees of effects: every run of one ends or stays suspended.)
\<close>

theorem errorHandler_catches:
  assumes "\<not> nullish action"
  shows "(\<forall>e. fst (run reducer (errorHandler saga fa action) state evs) \<noteq> Failed e)
   \<and> (\<forall>e. fst (run reducer (saga action) state evs) = Failed e \<longrightarrow>
          fst (run reducer (errorHandler saga fa action) state evs) = Done Undefined
        \<and> emitted (snd (run reducer (errorHandler saga fa action) state evs))
            = emitted (snd (run reducer (saga action) state evs)) @ [fa]
        \<and> console (snd (run reducer (errorHandler saga fa action) state evs))
            = console (snd (run reducer (saga action) state evs)) @ [(get_prop action ''type'', e)])
   \<and> (\<forall>v. fst (run reducer (saga action) state evs) = Done v \<longrightarrow>
          fst (run reducer (errorHandler saga fa action) state evs) = Done Undefined
        \<and> emitted (snd (run reducer (errorHandler saga fa action) state evs))
            = emitted (snd (run reducer (saga action) state evs))
        \<and> console (snd (run reducer (errorHandler saga fa action) state evs))
            = console (snd (run reducer (saga action) state evs)))
   \<and> (\<forall>ls k. fst (run reducer (saga action) state evs) = Waiting ls k \<longrightarrow>
          (\<exists>k'. fst (run reducer (errorHandler saga fa action) state evs) = Waiting ls k')
        \<and> emitted (snd (run reducer (errorHandler saga fa action) state evs))
            = emitted (snd (run reducer (saga action) state evs))
        \<and> console (snd (run reducer (errorHandler saga fa action) state evs))
            = console (snd (run reducer (saga action) state evs)))"
proof -
  let ?R = "run reducer (saga action) state evs"
  let ?W = "run reducer (errorHandler saga fa action) state evs"
  have sh: "shadows (get_prop action ''type'') fa ?R ?W"
    using run_shadows [of "get_prop action ''type''" fa reducer "saga action" state evs]
    by (simp add: errorHandler_supervised [OF assms])
  show ?thesis
  proof (cases "fst ?R")
    case (Waiting ls k)
    with sh show ?thesis by (simp add: shadows_def)
  next
    case (Done v)
    with sh show ?thesis by (simp add: shadows_def)
  next
    case (Failed e)
    with sh show ?thesis by (simp add: shadows_def)
  qed
qed

theorem errorHandler_catches_witness:
  "\<not> nullish (Obj 1 [(''type'', Str ''START'')])
   \<and> fst (run (\<lambda>st a. st)
        ((\<lambda>a. Put (Obj 5 [(''type'', Str ''STEP'')])
                (Take (PString ''GO'') (\<lambda>v. Throw (Thrown (Str ''boom'')))))
           (Obj 1 [(''type'', Str ''START'')]))
        [] [Obj 2 [(''type'', Str ''GO'')], Obj 3 [(''type'', Str ''GO'')]])
       = (Failed (Thrown (Str ''boom'')) :: jsval status)
   \<and> run (\<lambda>st a. st)
        (errorHandler
           (\<lambda>a. Put (Obj 5 [(''type'', Str ''STEP'')])
                (Take (PString ''GO'') (\<lambda>v. Throw (Thrown (Str ''boom'')))))
           (Obj 9 [(''type'', Str ''FAILED'')]) (Obj 1 [(''type'', Str ''START'')]))
        [] [Obj 2 [(''type'', Str ''GO'')], Obj 3 [(''type'', Str ''GO'')]]
       = (Done Undefined,
          \<lparr>store = [],
           emitted = [Obj 5 [(''type'', Str ''STEP'')], Obj 9 [(''type'', Str ''FAILED'')]],
           console = [(Str ''START'', Thrown (Str ''boom''))], resumed = 1\<rparr>)"
  using errorHandler_catches
    [where action = "Obj 1 [(''type'', Str ''START'')]" and reducer = "\<lambda>st a. st"
       and saga = "\<lambda>a. Put (Obj 5 [(''type'', Str ''STEP'')])
                (Take (PString ''GO'') (\<lambda>v. Throw (Thrown (Str ''boom''))))"
       and fa = "Obj 9 [(''type'', Str ''FAILED'')]" and state = "[]"
       and evs = "[Obj 2 [(''type'', Str ''GO'')], Obj 3 [(''type'', Str ''GO'')]]"]
  by (simp add: run_eval)

section \<open>The pin screen: theorems\<close>

lemma cb_navigate: "filter is_navigate (trace (foldl cb s pins)) = filter is_navigate (trace s)"
  by (induction pins arbitrary: s) (simp_all add: cb_def dispatch_def resolve_promise_def)

lemma cb_settled:
  "promise s = Some v \<Longrightarrow>
   trace (foldl cb s pins) = trace s @ replicate (length pins) (Dispatch False)
   \<and> promise (foldl cb s pins) = Some v"
proof (induction pins arbitrary: s)
  case Nil
  then show ?case by simp
next
  case (Cons pin pins)
  have "promise (cb s pin) = Some v" and "trace (cb s pin) = trace s @ [Dispatch False]"
    using Cons.prems by (simp_all add: cb_def dispatch_def resolve_promise_def)
  with Cons.IH [of "cb s pin"] show ?case by (simp add: replicate_append_same)
qed

lemma cb_pending:
  "promise s = None \<Longrightarrow>
   trace (cb s pin) = trace s @ [Dispatch False, Resolve pin] \<and> promise (cb s pin) = Some pin"
  by (simp add: cb_def dispatch_def resolve_promise_def)

text \<open>
  C5, as the code has it. On every invocation the navigation service is called first and
  the flag is set to true right after the call. When the pin screen then runs the
  completion callback, the flag is set to false and after that the promise resolves with
  the pin entered; a further run of the callback sets the flag to false again and
  resolves nothing. So with one run of the callback the flag is set back to false exactly
  once, inside the callback, before the promise resolves.
\<close>

theorem showPinScreenForResult_order:
  "trace (showPinScreenForResult t [] (pin # pins))
     = [Navigate ''PinScreen''
          \<lparr>canCancel = False, screenText = t ''Enter your 6-digit pin to authorize operation'',
           biometryText = t ''Authorize operation''\<rparr>,
        Dispatch True, Dispatch False, Resolve pin] @ replicate (length pins) (Dispatch False)
   \<and> promise (showPinScreenForResult t [] (pin # pins)) = Some pin
   \<and> count_list (trace (showPinScreenForResult t [] [pin])) (Dispatch False) = 1
   \<and> trace (showPinScreenForResult t [] [])
       = [Navigate ''PinScreen''
            \<lparr>canCancel = False, screenText = t ''Enter your 6-digit pin to authorize operation'',
             biometryText = t ''Authorize operation''\<rparr>,
          Dispatch True]
   \<and> promise (showPinScreenForResult t [] []) = None"
proof -
  let ?s3 = "dispatch True \<lparr>trace = [Navigate ''PinScreen''
       \<lparr>canCancel = False, screenText = t ''Enter your 6-digit pin to authorize operation'',
        biometryText = t ''Authorize operation''\<rparr>], promise = None\<rparr>"
  have pending: "promise ?s3 = None" by (simp add: dispatch_def)
  from cb_pending [OF pending, of pin]
  have first: "trace (cb ?s3 pin) = trace ?s3 @ [Dispatch False, Resolve pin]"
    and settled: "promise (cb ?s3 pin) = Some pin" by simp_all
  from cb_settled [OF settled, of pins] first
  have "trace (foldl cb ?s3 (pin # pins))
          = trace ?s3 @ [Dispatch False, Resolve pin] @ replicate (length pins) (Dispatch False)"
    and "promise (foldl cb ?s3 (pin # pins)) = Some pin"
    by simp_all
  then show ?thesis
    by (simp add: showPinScreenForResult_def dispatch_def cb_def resolve_promise_def)
qed

text \<open>
  C5 as stated fails: on the invocation in which the user enters 123456, the navigation
  service is called and the flag has not been set to true before that call.
\<close>

theorem showPinScreenForResult_counterexample:
  "list_ex is_navigate (trace (showPinScreenForResult (\<lambda>m. m) [] [''123456'']))
   \<and> \<not> shown_before_navigate (trace (showPinScreenForResult (\<lambda>m. m) [] [''123456'']))"
  by (simp add: showPinScreenForResult_def dispatch_def cb_def resolve_promise_def
      shown_before_navigate_def)

text \<open>
  C10. Whatever the pin screen does, an invocation calls the navigation service exactly
  once, as its first action, for the screen \<^verbatim>\<open>PinScreen\<close> with \<^verbatim>\<open>canCancel\<close> false and the
  translations of two fixed messages as prompt texts. The function has no parameter the
  parameters of the call could depend on.
\<close>

theorem showPinScreenForResult_not_cancellable:
  "filter is_navigate (trace (showPinScreenForResult t during later))
     = [Navigate ''PinScreen''
          \<lparr>canCancel = False, screenText = t ''Enter your 6-digit pin to authorize operation'',
           biometryText = t ''Authorize operation''\<rparr>]
   \<and> hd (trace (showPinScreenForResult t during later))
     = Navigate ''PinScreen''
          \<lparr>canCancel = False, screenText = t ''Enter your 6-digit pin to authorize operation'',
           biometryText = t ''Authorize operation''\<rparr>"
proof -
  have "trace (foldl cb s pins) \<noteq> [] \<and> hd (trace (foldl cb s pins)) = hd (trace s)"
    if "trace s \<noteq> []" for s pins
    using that
    by (induction pins arbitrary: s) (simp_all add: cb_def dispatch_def resolve_promise_def)
  then show ?thesis
    by (simp add: showPinScreenForResult_def cb_navigate dispatch_def Let_def)
qed

end
